theory Spec2Isabelle
  imports Main "HOL-Library.Sublist"
begin

section \<open>Python strings and pathlib paths\<close>

text \<open>
  Names are modelled as \<^typ>\<open>string\<close> over the ASCII alphabet: \<open>str.lower()\<close> maps
  \<open>A\<close>..\<open>Z\<close> to \<open>a\<close>..\<open>z\<close> and leaves every other character alone.
  The test \<open>kw in s\<close> of Python is \<^const>\<open>sublist\<close>, and \<open>s.endswith(e)\<close> is
  \<^const>\<open>suffix\<close>, both from the list library.
\<close>

definition lower_char :: "char \<Rightarrow> char" where
  "lower_char c =
     (let n = (of_char c :: nat) in if 65 \<le> n \<and> n \<le> 90 then char_of (n + 32) else c)"

definition lower :: "string \<Rightarrow> string" where
  "lower s = map lower_char s"

text \<open>\<open>s.rfind(c)\<close>: the index of the last occurrence of \<open>c\<close>, or \<open>-1\<close>.\<close>

definition rfind :: "string \<Rightarrow> char \<Rightarrow> int" where
  "rfind s c =
     (case filter (\<lambda>i. s ! i = c) (rev [0..<length s]) of [] \<Rightarrow> - 1 | i # _ \<Rightarrow> int i)"

text \<open>
  \<open>PurePath.suffix\<close> and \<open>PurePath.stem\<close> of a final path component (CPython up to 3.13:
  \<open>i = name.rfind('.')\<close>, and the dot splits the name when \<open>0 < i < len(name) - 1\<close>).
\<close>

definition path_suffix :: "string \<Rightarrow> string" where
  "path_suffix name =
     (let i = rfind name (CHR ''.'') in
      if 0 < i \<and> i < int (length name) - 1 then drop (nat i) name else [])"

definition path_stem :: "string \<Rightarrow> string" where
  "path_stem name =
     (let i = rfind name (CHR ''.'') in
      if 0 < i \<and> i < int (length name) - 1 then take (nat i) name else name)"

text \<open>
  A path is the string \<open>str(path)\<close> of a normalised \<open>Path\<close>. \<open>path_name\<close> is its final
  component, \<open>joinpath\<close> is the operator \<open>/\<close> with a one-segment or literal relative
  right operand: a right operand \<open>.\<close> is dropped, \<open>..\<close> is kept. \<open>os_path_join\<close> is
  \<open>os.path.join\<close> of two strings.
\<close>

definition path_name :: "string \<Rightarrow> string" where
  "path_name p = drop (nat (rfind p (CHR ''/'') + 1)) p"

definition joinpath :: "string \<Rightarrow> string \<Rightarrow> string" where
  "joinpath d n =
     (if n = ''.'' then d
      else if d = ''.'' then n
      else if d \<noteq> [] \<and> last d = CHR ''/'' then d @ n
      else d @ ''/'' @ n)"

definition os_path_join :: "string \<Rightarrow> string \<Rightarrow> string" where
  "os_path_join a b =
     (if b \<noteq> [] \<and> hd b = CHR ''/'' then b
      else if a = [] \<or> last a = CHR ''/'' then a @ b
      else a @ ''/'' @ b)"

section \<open>Category detection\<close>

text \<open>\<open>any(kw in name for kw in kws)\<close>\<close>

definition any_in :: "string list \<Rightarrow> string \<Rightarrow> bool" where
  "any_in kws name = list_ex (\<lambda>kw. sublist kw name) kws"

text \<open>\<open>detect_category\<close> of \<open>generate_once.py\<close>.\<close>

definition detect_category :: "string \<Rightarrow> string" where
  "detect_category app_name =
     (let app_name_lower = lower app_name in
      if any_in [''chrome'', ''firefox'', ''edge'', ''brave'', ''opera'', ''safari'',
                 ''chromium'', ''librewolf'', ''libre''] app_name_lower
      then ''Network;WebBrowser;''
      else if any_in [''code'', ''studio'', ''ide'', ''editor'', ''vim'', ''emacs'',
                      ''sublime''] app_name_lower
      then ''Development;IDE;''
      else if any_in [''player'', ''vlc'', ''mpv'', ''kodi'', ''spotify'', ''audacity'']
                app_name_lower
      then ''AudioVideo;Audio;Video;''
      else if any_in [''gimp'', ''inkscape'', ''blender'', ''krita'', ''darktable'']
                app_name_lower
      then ''Graphics;2DGraphics;3DGraphics;''
      else if any_in [''libreoffice'', ''openoffice'', ''word'', ''excel'', ''powerpoint'']
                app_name_lower
      then ''Office;''
      else if any_in [''game'', ''steam'', ''minecraft'', ''roblox''] app_name_lower
      then ''Game;''
      else if any_in [''terminal'', ''system'', ''admin'', ''disk'', ''backup''] app_name_lower
      then ''System;''
      else ''Utility;'')"

text \<open>The watch daemon's handler object (\<open>monitor.py\<close>).\<close>

record AppImageHandler =
  self_appimage_dir :: string
  self_desktop_dir :: string

text \<open>\<open>AppImageHandler.detect_category\<close> of \<open>monitor.py\<close>.\<close>

definition AppImageHandler_detect_category :: "AppImageHandler \<Rightarrow> string \<Rightarrow> string" where
  "AppImageHandler_detect_category self app_name =
     (let app_name_lower = lower app_name in
      if any_in [''chrome'', ''firefox'', ''edge'', ''brave'', ''opera'', ''safari'',
                 ''chromium'', ''librewolf'', ''libre''] app_name_lower
      then ''Network;WebBrowser;''
      else if any_in [''code'', ''studio'', ''ide'', ''editor'', ''vim'', ''emacs'',
                      ''sublime''] app_name_lower
      then ''Development;IDE;''
      else if any_in [''player'', ''vlc'', ''mpv'', ''kodi'', ''spotify'', ''audacity'']
                app_name_lower
      then ''AudioVideo;Audio;Video;''
      else if any_in [''gimp'', ''inkscape'', ''blender'', ''krita'', ''darktable'']
                app_name_lower
      then ''Graphics;2DGraphics;3DGraphics;''
      else if any_in [''libreoffice'', ''openoffice'', ''word'', ''excel'', ''powerpoint'']
                app_name_lower
      then ''Office;''
      else if any_in [''game'', ''steam'', ''minecraft'', ''roblox''] app_name_lower
      then ''Game;''
      else if any_in [''terminal'', ''system'', ''admin'', ''disk'', ''backup''] app_name_lower
      then ''System;''
      else ''Utility;'')"

subsection \<open>The classifier as the specification words it\<close>

text \<open>
  The keyword table of the specification, in its order, and the classifier it describes:
  the category of the first group one of whose keywords occurs in the lower-cased name,
  \<open>Utility;\<close> when there is none.
\<close>

definition category_table :: "(string list \<times> string) list" where
  "category_table =
     [([''chrome'', ''firefox'', ''edge'', ''brave'', ''opera'', ''safari'', ''chromium'',
        ''librewolf'', ''libre''], ''Network;WebBrowser;''),
      ([''code'', ''studio'', ''ide'', ''editor'', ''vim'', ''emacs'', ''sublime''],
       ''Development;IDE;''),
      ([''player'', ''vlc'', ''mpv'', ''kodi'', ''spotify'', ''audacity''],
       ''AudioVideo;Audio;Video;''),
      ([''gimp'', ''inkscape'', ''blender'', ''krita'', ''darktable''],
       ''Graphics;2DGraphics;3DGraphics;''),
      ([''libreoffice'', ''openoffice'', ''word'', ''excel'', ''powerpoint''], ''Office;''),
      ([''game'', ''steam'', ''minecraft'', ''roblox''], ''Game;''),
      ([''terminal'', ''system'', ''admin'', ''disk'', ''backup''], ''System;'')]"

definition group_matches :: "string \<Rightarrow> string list \<times> string \<Rightarrow> bool" where
  "group_matches name g = list_ex (\<lambda>kw. sublist kw (lower name)) (fst g)"

definition classify :: "string \<Rightarrow> string" where
  "classify name =
     (case find (group_matches name) category_table of
        None \<Rightarrow> ''Utility;''
      | Some g \<Rightarrow> snd g)"

text \<open>The groups of the table that match a name, in table order.\<close>

definition matching_groups :: "string \<Rightarrow> (string list \<times> string) list" where
  "matching_groups name = filter (group_matches name) category_table"

text \<open>
  Every occurrence of a keyword of the table in the lower-cased name, as a pair of the
  keyword and its group's category, in table order.
\<close>

definition keyword_hits :: "string \<Rightarrow> (string \<times> string) list" where
  "keyword_hits name =
     concat (map (\<lambda>g. map (\<lambda>kw. (kw, snd g))
                          (filter (\<lambda>kw. sublist kw (lower name)) (fst g)))
                 category_table)"

section \<open>The operating system as the program sees it\<close>

text \<open>
  Exceptions, by the classes the handlers of the source tell apart; every one of them is a
  subclass of \<open>Exception\<close>. \<open>PermissionError\<close> is what writing onto a read-only file
  raises; \<open>OtherException\<close> stands for any other subclass (\<open>OSError\<close>, ...).
\<close>

datatype exn = TimeoutExpired | CalledProcessError | FileNotFoundError | ImportError
  | PermissionError | OtherException

datatype level = INFO | WARNING | ERROR

text \<open>
  One file yielded by \<open>os.walk\<close> over the scratch directory, with what the later calls on
  it answer: \<open>stat().st_size\<close> (or the exception it raises, as on a dangling symlink),
  \<open>Image.open(...).size\<close> (or the exception: \<open>ImportError\<close> when PIL is missing), and
  the bytes and the permission bits \<open>shutil.copy2\<close> reads and copies. A file answers the
  same at every call of one run.
\<close>

record dir_entry =
  root :: string
  filename :: string
  st_size :: "exn + nat"
  st_mode :: nat
  image_size :: "exn + nat \<times> nat"
  data :: string

text \<open>
  The answers of the environment during one call of \<open>generate_desktop_file\<close>:
  \<open>None\<close> is success for the calls that return nothing; \<open>subprocess.run\<close> answers the
  exception it raises or the return code. \<open>is_root\<close> tells whether the process may
  write onto read-only files; \<open>isdir\<close> is \<open>os.path.isdir\<close> for the paths the run does
  not create itself. The removal of the scratch directory at the end of the \<open>with\<close>
  block is taken to succeed.
\<close>

record world =
  home :: string
  is_root :: bool
  isdir :: "string \<Rightarrow> bool"
  mkdir_icon_cache :: "exn option"
  mkdtemp :: "exn option"
  run_extract :: "exn + int"
  walk :: "dir_entry list"
  mkdir_subdir :: "string \<Rightarrow> exn option"
  copy2 :: "string \<Rightarrow> string \<Rightarrow> exn option"
  open_w :: "string \<Rightarrow> exn option"
  chmod :: "string \<Rightarrow> exn option"
  run_update_db :: "exn + int"

text \<open>
  What persists: file contents by path, the permission bits set by \<open>os.chmod\<close> and by
  \<open>shutil.copy2\<close>, and the log records. A log record is the level and the message;
  values the model does not carry (exception texts, stderr, counts, scores, the scratch
  path) are left out of the message. An effectful function returns its result, or the
  exception it raises, together with the state it leaves.
\<close>

record state =
  files :: "string \<rightharpoonup> string"
  modes :: "string \<rightharpoonup> nat"
  logged :: "(level \<times> string) list"

definition logger :: "level \<Rightarrow> string \<Rightarrow> state \<Rightarrow> state" where
  "logger l msg s = s\<lparr>logged := logged s @ [(l, msg)]\<rparr>"

section \<open>Icon extraction (\<open>generate_once.py\<close>)\<close>

text \<open>\<open>file.lower().endswith(('.png', '.svg', '.xpm', '.ico'))\<close>\<close>

definition is_icon_file :: "dir_entry \<Rightarrow> bool" where
  "is_icon_file f =
     list_ex (\<lambda>e. suffix e (lower (filename f))) [''.png'', ''.svg'', ''.xpm'', ''.ico'']"

definition find_icon_files :: "world \<Rightarrow> dir_entry list" where
  "find_icon_files w = filter is_icon_file (walk w)"

text \<open>The score of one candidate whose size was read (lines 104-133).\<close>

definition icon_score :: "dir_entry \<Rightarrow> nat \<Rightarrow> int" where
  "icon_score icon_path file_size =
     (let sfx = lower (path_suffix (filename icon_path));
          score = (if sfx = ''.svg'' then 1000
                   else if sfx = ''.png'' then 500
                   else if sfx = ''.xpm'' then 100
                   else if sfx = ''.ico'' then 50
                   else 0);
          score = score + min (int file_size div 1024) 100
      in if sfx = ''.png'' then
           (case image_size icon_path of
              Inr (width, height) \<Rightarrow> score + min (int (width * height) div 1000) 200
            | Inl e \<Rightarrow> score)
         else score)"

text \<open>The warnings of the two handlers around the PIL probe.\<close>

definition png_probe_log :: "dir_entry \<Rightarrow> state \<Rightarrow> state" where
  "png_probe_log icon_path s =
     (if lower (path_suffix (filename icon_path)) = ''.png'' then
        (case image_size icon_path of
           Inr d \<Rightarrow> s
         | Inl e \<Rightarrow>
             if e = ImportError
             then logger WARNING ''PIL not available, using file size for scoring'' s
             else logger WARNING ''Could not get PNG dimensions: '' s)
      else s)"

text \<open>The scoring loop, carrying \<open>best_icon\<close> and \<open>best_score\<close>.\<close>

fun score_loop ::
  "dir_entry list \<Rightarrow> dir_entry option \<times> int \<Rightarrow> state
     \<Rightarrow> (exn + dir_entry option \<times> int) \<times> state" where
  "score_loop [] best s = (Inr best, s)"
| "score_loop (icon_path # rest) (best_icon, best_score) s =
     (case st_size icon_path of
        Inl e \<Rightarrow> (Inl e, s)
      | Inr file_size \<Rightarrow>
          (let score = icon_score icon_path file_size;
               s = png_probe_log icon_path s
           in if score > best_score then score_loop rest (Some icon_path, score) s
              else score_loop rest (best_icon, best_score) s))"

definition size_dir :: "nat \<Rightarrow> string" where
  "size_dir file_size =
     (if file_size < 5000 then ''16x16''
      else if file_size < 15000 then ''32x32''
      else if file_size < 50000 then ''48x48''
      else if file_size < 100000 then ''64x64''
      else ''128x128'')"

definition cache_subdir :: "string \<Rightarrow> dir_entry \<Rightarrow> nat \<Rightarrow> string" where
  "cache_subdir icon_cache_dir icon_path file_size =
     (if lower (path_suffix (filename icon_path)) = ''.svg''
      then joinpath icon_cache_dir ''scalable/apps''
      else joinpath icon_cache_dir (size_dir file_size @ ''/apps''))"

text \<open>
  \<open>shutil.copy2(src, dst)\<close>. When \<open>dst\<close> is a directory the file goes into it under
  the name of the source. Here \<open>dst\<close> is the cache subdirectory joined with the stem: it
  is a directory when the stem is \<open>.\<close> (a file named \<open>..png\<close>: the join is the
  subdirectory itself, created just before) or \<open>..\<close> (a file named \<open>...png\<close>: its
  parent), and otherwise when the environment says so. Writing onto an existing file
  whose permission bits lack owner write raises \<open>PermissionError\<close>, unless the process
  is root. A copy that succeeds leaves the bytes and the permission bits of the source.
\<close>

definition copy2_dst_isdir :: "world \<Rightarrow> string \<Rightarrow> string \<Rightarrow> bool" where
  "copy2_dst_isdir w subdir dst = (dst = subdir \<or> dst = subdir @ ''/..'' \<or> isdir w dst)"

definition owner_writable :: "nat \<Rightarrow> bool" where
  "owner_writable mode = odd (mode div 128)"

definition read_only :: "state \<Rightarrow> string \<Rightarrow> bool" where
  "read_only s path =
     (case files s path of
        None \<Rightarrow> False
      | Some content \<Rightarrow>
          (case modes s path of None \<Rightarrow> False | Some mode \<Rightarrow> \<not> owner_writable mode))"

text \<open>The copy loop (lines 146-177).\<close>

fun copy_loop :: "world \<Rightarrow> string \<Rightarrow> dir_entry list \<Rightarrow> state \<Rightarrow> (exn + unit) \<times> state" where
  "copy_loop w icon_cache_dir [] s = (Inr (), s)"
| "copy_loop w icon_cache_dir (icon_path # rest) s =
     (case st_size icon_path of
        Inl e \<Rightarrow> (Inl e, s)
      | Inr file_size \<Rightarrow>
          (case mkdir_subdir w (cache_subdir icon_cache_dir icon_path file_size) of
             Some e \<Rightarrow> (Inl e, s)
           | None \<Rightarrow>
               (let dest_path_no_ext =
                      joinpath (cache_subdir icon_cache_dir icon_path file_size)
                        (path_stem (filename icon_path));
                    dst = (if copy2_dst_isdir w
                                (cache_subdir icon_cache_dir icon_path file_size)
                                dest_path_no_ext
                           then os_path_join dest_path_no_ext (filename icon_path)
                           else dest_path_no_ext)
                in if \<not> is_root w \<and> read_only s dst then (Inl PermissionError, s)
                   else
                     (case copy2 w (joinpath (root icon_path) (filename icon_path)) dst of
                        Some e \<Rightarrow> (Inl e, s)
                      | None \<Rightarrow>
                          copy_loop w icon_cache_dir rest
                            (logger INFO (''Cached icon: '' @ dest_path_no_ext)
                               (s\<lparr>files := (files s)(dst \<mapsto> data icon_path),
                                   modes := (modes s)(dst \<mapsto> st_mode icon_path)\<rparr>))))))"

text \<open>
  The body of the \<open>try\<close> block of \<open>extract_and_cache_icons\<close>. A \<open>Path\<close> is
  always true, so \<open>not best_icon\<close> tests for \<open>None\<close>.
\<close>

definition extract_try ::
  "world \<Rightarrow> string \<Rightarrow> string \<Rightarrow> state \<Rightarrow> (exn + string option) \<times> state" where
  "extract_try w appimage_path icon_cache_dir s =
     (case run_extract w of
        Inl e \<Rightarrow> (Inl e, s)
      | Inr returncode \<Rightarrow>
          if returncode \<noteq> 0
          then (Inr None, logger WARNING ''Failed to extract AppImage: '' s)
          else
            (let icon_files = find_icon_files w in
             if icon_files = []
             then (Inr None, logger WARNING (''No icons found in '' @ appimage_path) s)
             else
               (case score_loop icon_files (None, - 1)
                       (logger INFO (''Found icons in '' @ appimage_path) s) of
                  (Inl e, s) \<Rightarrow> (Inl e, s)
                | (Inr (best_icon, best_score), s) \<Rightarrow>
                    (case best_icon of
                       None \<Rightarrow> (Inr None, logger WARNING ''No suitable icon found'' s)
                     | Some best \<Rightarrow>
                         (case copy_loop w icon_cache_dir icon_files
                                 (logger INFO
                                    (''Selected best icon: ''
                                       @ joinpath (root best) (filename best)) s) of
                            (Inl e, s) \<Rightarrow> (Inl e, s)
                          | (Inr u, s) \<Rightarrow> (Inr (Some (path_stem (filename best))), s))))))"

definition icon_cache_dir_of :: "world \<Rightarrow> string" where
  "icon_cache_dir_of w = joinpath (home w) ''.local/share/icons/hicolor''"

text \<open>
  \<open>extract_and_cache_icons\<close>: creating the cache root and the scratch directory happens
  before the \<open>try\<close>, so their exceptions leave the function; the two handlers turn every
  exception of the body into \<open>None\<close>.
\<close>

definition extract_and_cache_icons ::
  "world \<Rightarrow> string \<Rightarrow> state \<Rightarrow> (exn + string option) \<times> state" where
  "extract_and_cache_icons w appimage_path s =
     (let icon_cache_dir = icon_cache_dir_of w in
      case mkdir_icon_cache w of
        Some e \<Rightarrow> (Inl e, s)
      | None \<Rightarrow>
          (case mkdtemp w of
             Some e \<Rightarrow> (Inl e, s)
           | None \<Rightarrow>
               (case extract_try w appimage_path icon_cache_dir
                       (logger INFO (''Extracting '' @ appimage_path) s) of
                  (Inl e, s) \<Rightarrow>
                    if e = TimeoutExpired
                    then (Inr None, logger ERROR (''Timeout extracting '' @ appimage_path) s)
                    else (Inr None,
                          logger ERROR (''Error extracting icons from '' @ appimage_path) s)
                | (Inr r, s) \<Rightarrow> (Inr r, s))))"

section \<open>Desktop entry generation (\<open>generate_once.py\<close>)\<close>

definition newline :: string where
  "newline = [CHR 0x0A]"

text \<open>The f-string of lines 202-210; \<open>icon_name if icon_name else ...\<close> tests truthiness.\<close>

definition desktop_content :: "string \<Rightarrow> string \<Rightarrow> string option \<Rightarrow> string \<Rightarrow> string" where
  "desktop_content app_name appimage_path icon_name category =
     ''[Desktop Entry]'' @ newline @
     ''Type=Application'' @ newline @
     ''Name='' @ app_name @ newline @
     ''Comment=AppImage Application'' @ newline @
     ''Exec='' @ appimage_path @ '' %u'' @ newline @
     ''Icon='' @ (case icon_name of
                    None \<Rightarrow> ''application-x-executable''
                  | Some n \<Rightarrow> if n \<noteq> [] then n else ''application-x-executable'') @ newline @
     ''Terminal=false'' @ newline @
     ''Categories='' @ category @ newline"

text \<open>The inner \<open>try\<close>: \<open>check=True\<close> raises \<open>CalledProcessError\<close> on a non-zero exit.\<close>

definition update_desktop_database :: "world \<Rightarrow> state \<Rightarrow> (exn + unit) \<times> state" where
  "update_desktop_database w s =
     (let raised = (case run_update_db w of
                      Inl e \<Rightarrow> Some e
                    | Inr returncode \<Rightarrow> if returncode \<noteq> 0 then Some CalledProcessError else None)
      in case raised of
           None \<Rightarrow> (Inr (), logger INFO ''Updated desktop database'' s)
         | Some e \<Rightarrow>
             if e = CalledProcessError
             then (Inr (), logger WARNING ''Failed to update desktop database: '' s)
             else if e = FileNotFoundError
             then (Inr (), logger WARNING ''update-desktop-database not found'' s)
             else (Inl e, s))"

text \<open>
  The body of the outer \<open>try\<close>. Opening for writing and writing are one step: it raises
  before anything is written, or leaves the whole content. Mode \<open>0o755\<close> is 493.
\<close>

definition generate_try :: "world \<Rightarrow> string \<Rightarrow> string \<Rightarrow> state \<Rightarrow> (exn + unit) \<times> state" where
  "generate_try w appimage_path desktop_dir s =
     (let app_name = path_stem (path_name appimage_path);
          desktop_file = joinpath desktop_dir (app_name @ ''.desktop'')
      in case extract_and_cache_icons w appimage_path s of
           (Inl e, s) \<Rightarrow> (Inl e, s)
         | (Inr icon_name, s) \<Rightarrow>
             (let category = detect_category app_name;
                  content = desktop_content app_name appimage_path icon_name category
              in case open_w w desktop_file of
                   Some e \<Rightarrow> (Inl e, s)
                 | None \<Rightarrow>
                     (let s = s\<lparr>files := (files s)(desktop_file \<mapsto> content)\<rparr> in
                      case chmod w desktop_file of
                        Some e \<Rightarrow> (Inl e, s)
                      | None \<Rightarrow>
                          update_desktop_database w
                            (logger INFO (''Generated desktop file: '' @ desktop_file)
                               (s\<lparr>modes := (modes s)(desktop_file \<mapsto> 493)\<rparr>)))))"

definition generate_desktop_file ::
  "world \<Rightarrow> string \<Rightarrow> string \<Rightarrow> state \<Rightarrow> (exn + unit) \<times> state" where
  "generate_desktop_file w appimage_path desktop_dir s =
     (case generate_try w appimage_path desktop_dir s of
        (Inl e, s) \<Rightarrow>
          (Inr (), logger ERROR (''Error generating desktop file for '' @ appimage_path) s)
      | (Inr u, s) \<Rightarrow> (Inr u, s))"

text \<open>
  The loop of \<open>main\<close> over the bundles found, each with the answers of the environment
  during its turn.
\<close>

fun main_loop ::
  "(string \<Rightarrow> world) \<Rightarrow> string list \<Rightarrow> string \<Rightarrow> state \<Rightarrow> (exn + unit) \<times> state" where
  "main_loop ws [] desktop_dir s = (Inr (), s)"
| "main_loop ws (appimage # rest) desktop_dir s =
     (case generate_desktop_file (ws appimage) appimage desktop_dir
             (logger INFO (''Processing: '' @ path_name appimage) s) of
        (Inl e, s) \<Rightarrow> (Inl e, s)
      | (Inr u, s) \<Rightarrow> main_loop ws rest desktop_dir s)"

section \<open>The watch daemon's copy of the core (\<open>monitor.py\<close>)\<close>

text \<open>
  The methods of \<open>AppImageHandler\<close>, translated from \<open>monitor.py\<close> on their own, with
  the loop bodies written out as they stand there.
\<close>

text \<open>The body of the scoring loop (lines 127-156): the score and the state it leaves.\<close>

definition AppImageHandler_score_body ::
  "AppImageHandler \<Rightarrow> dir_entry \<Rightarrow> nat \<Rightarrow> state \<Rightarrow> int \<times> state" where
  "AppImageHandler_score_body self icon_path file_size s =
     (let sfx = lower (path_suffix (filename icon_path));
          score = (0::int);
          score = (if sfx = ''.svg'' then score + 1000
                   else if sfx = ''.png'' then score + 500
                   else if sfx = ''.xpm'' then score + 100
                   else if sfx = ''.ico'' then score + 50
                   else score);
          score = score + min (int file_size div 1024) 100
      in if sfx = ''.png'' then
           (case image_size icon_path of
              Inr (width, height) \<Rightarrow> (score + min (int (width * height) div 1000) 200, s)
            | Inl e \<Rightarrow>
                if e = ImportError
                then (score,
                      logger WARNING ''PIL not available, using file size for scoring'' s)
                else (score, logger WARNING ''Could not get PNG dimensions: '' s))
         else (score, s))"

fun AppImageHandler_score_loop ::
  "AppImageHandler \<Rightarrow> dir_entry list \<Rightarrow> dir_entry option \<times> int \<Rightarrow> state
     \<Rightarrow> (exn + dir_entry option \<times> int) \<times> state" where
  "AppImageHandler_score_loop self [] best s = (Inr best, s)"
| "AppImageHandler_score_loop self (icon_path # rest) (best_icon, best_score) s =
     (case st_size icon_path of
        Inl e \<Rightarrow> (Inl e, s)
      | Inr file_size \<Rightarrow>
          (let scored = AppImageHandler_score_body self icon_path file_size s
           in if fst scored > best_score
              then AppImageHandler_score_loop self rest (Some icon_path, fst scored) (snd scored)
              else AppImageHandler_score_loop self rest (best_icon, best_score) (snd scored)))"

text \<open>The destination directory chosen in the copy loop (lines 175-195).\<close>

definition AppImageHandler_cache_subdir ::
  "AppImageHandler \<Rightarrow> string \<Rightarrow> dir_entry \<Rightarrow> nat \<Rightarrow> string" where
  "AppImageHandler_cache_subdir self icon_cache_dir icon_path file_size =
     (if lower (path_suffix (filename icon_path)) = ''.svg''
      then joinpath icon_cache_dir ''scalable/apps''
      else joinpath icon_cache_dir
             ((if file_size < 5000 then ''16x16''
               else if file_size < 15000 then ''32x32''
               else if file_size < 50000 then ''48x48''
               else if file_size < 100000 then ''64x64''
               else ''128x128'') @ ''/apps''))"

fun AppImageHandler_copy_loop ::
  "AppImageHandler \<Rightarrow> world \<Rightarrow> string \<Rightarrow> dir_entry list \<Rightarrow> state \<Rightarrow> (exn + unit) \<times> state" where
  "AppImageHandler_copy_loop self w icon_cache_dir [] s = (Inr (), s)"
| "AppImageHandler_copy_loop self w icon_cache_dir (icon_path # rest) s =
     (case st_size icon_path of
        Inl e \<Rightarrow> (Inl e, s)
      | Inr file_size \<Rightarrow>
          (case mkdir_subdir w
                  (AppImageHandler_cache_subdir self icon_cache_dir icon_path file_size) of
             Some e \<Rightarrow> (Inl e, s)
           | None \<Rightarrow>
               (let dest_path_no_ext =
                      joinpath
                        (AppImageHandler_cache_subdir self icon_cache_dir icon_path file_size)
                        (path_stem (filename icon_path));
                    dst = (if copy2_dst_isdir w
                                (AppImageHandler_cache_subdir self icon_cache_dir icon_path
                                   file_size)
                                dest_path_no_ext
                           then os_path_join dest_path_no_ext (filename icon_path)
                           else dest_path_no_ext)
                in if \<not> is_root w \<and> read_only s dst then (Inl PermissionError, s)
                   else
                     (case copy2 w (joinpath (root icon_path) (filename icon_path)) dst of
                        Some e \<Rightarrow> (Inl e, s)
                      | None \<Rightarrow>
                          AppImageHandler_copy_loop self w icon_cache_dir rest
                            (logger INFO (''Cached icon: '' @ dest_path_no_ext)
                               (s\<lparr>files := (files s)(dst \<mapsto> data icon_path),
                                   modes := (modes s)(dst \<mapsto> st_mode icon_path)\<rparr>))))))"

definition AppImageHandler_extract_and_cache_icons ::
  "AppImageHandler \<Rightarrow> world \<Rightarrow> string \<Rightarrow> state \<Rightarrow> (exn + string option) \<times> state" where
  "AppImageHandler_extract_and_cache_icons self w appimage_path s =
     (let icon_cache_dir = joinpath (home w) ''.local/share/icons/hicolor'' in
      case mkdir_icon_cache w of
        Some e \<Rightarrow> (Inl e, s)
      | None \<Rightarrow>
          (case mkdtemp w of
             Some e \<Rightarrow> (Inl e, s)
           | None \<Rightarrow>
               (let s = logger INFO (''Extracting '' @ appimage_path) s;
                    body =
                      (case run_extract w of
                         Inl e \<Rightarrow> (Inl e, s)
                       | Inr returncode \<Rightarrow>
                           if returncode \<noteq> 0
                           then (Inr None, logger WARNING ''Failed to extract AppImage: '' s)
                           else
                             (let icon_files =
                                    filter (\<lambda>f. list_ex (\<lambda>e. suffix e (lower (filename f)))
                                                   [''.png'', ''.svg'', ''.xpm'', ''.ico''])
                                      (walk w)
                              in if icon_files = []
                                 then (Inr None,
                                       logger WARNING (''No icons found in '' @ appimage_path) s)
                                 else
                                   (case AppImageHandler_score_loop self icon_files (None, - 1)
                                           (logger INFO (''Found icons in '' @ appimage_path) s) of
                                      (Inl e, s) \<Rightarrow> (Inl e, s)
                                    | (Inr (best_icon, best_score), s) \<Rightarrow>
                                        (case best_icon of
                                           None \<Rightarrow>
                                             (Inr None,
                                              logger WARNING ''No suitable icon found'' s)
                                         | Some best \<Rightarrow>
                                             (case AppImageHandler_copy_loop self w icon_cache_dir
                                                     icon_files
                                                     (logger INFO
                                                        (''Selected best icon: ''
                                                           @ joinpath (root best) (filename best))
                                                        s) of
                                                (Inl e, s) \<Rightarrow> (Inl e, s)
                                              | (Inr u, s) \<Rightarrow>
                                                  (Inr (Some (path_stem (filename best))), s))))))
                in case body of
                     (Inl e, s) \<Rightarrow>
                       if e = TimeoutExpired
                       then (Inr None,
                             logger ERROR (''Timeout extracting '' @ appimage_path) s)
                       else (Inr None,
                             logger ERROR (''Error extracting icons from '' @ appimage_path) s)
                   | (Inr r, s) \<Rightarrow> (Inr r, s))))"

definition AppImageHandler_generate_desktop_file ::
  "AppImageHandler \<Rightarrow> world \<Rightarrow> string \<Rightarrow> state \<Rightarrow> (exn + unit) \<times> state" where
  "AppImageHandler_generate_desktop_file self w appimage_path s =
     (let app_name = path_stem (path_name appimage_path);
          desktop_file = joinpath (self_desktop_dir self) (app_name @ ''.desktop'');
          body =
            (case AppImageHandler_extract_and_cache_icons self w appimage_path s of
               (Inl e, s) \<Rightarrow> (Inl e, s)
             | (Inr icon_name, s) \<Rightarrow>
                 (let category = AppImageHandler_detect_category self app_name;
                      content =
                        ''[Desktop Entry]'' @ newline @
                        ''Type=Application'' @ newline @
                        ''Name='' @ app_name @ newline @
                        ''Comment=AppImage Application'' @ newline @
                        ''Exec='' @ appimage_path @ '' %u'' @ newline @
                        ''Icon='' @ (case icon_name of
                                       None \<Rightarrow> ''application-x-executable''
                                     | Some n \<Rightarrow>
                                         if n \<noteq> [] then n else ''application-x-executable'')
                          @ newline @
                        ''Terminal=false'' @ newline @
                        ''Categories='' @ category @ newline
                  in case open_w w desktop_file of
                       Some e \<Rightarrow> (Inl e, s)
                     | None \<Rightarrow>
                         (let s = s\<lparr>files := (files s)(desktop_file \<mapsto> content)\<rparr> in
                          case chmod w desktop_file of
                            Some e \<Rightarrow> (Inl e, s)
                          | None \<Rightarrow>
                              (let s = logger INFO (''Generated desktop file: '' @ desktop_file)
                                         (s\<lparr>modes := (modes s)(desktop_file \<mapsto> 493)\<rparr>)
                               in case run_update_db w of
                                    Inl e \<Rightarrow>
                                      if e = CalledProcessError
                                      then (Inr (), logger WARNING
                                              ''Failed to update desktop database: '' s)
                                      else if e = FileNotFoundError
                                      then (Inr (), logger WARNING
                                              ''update-desktop-database not found'' s)
                                      else (Inl e, s)
                                  | Inr returncode \<Rightarrow>
                                      if returncode \<noteq> 0
                                      then (Inr (), logger WARNING
                                              ''Failed to update desktop database: '' s)
                                      else (Inr (), logger INFO ''Updated desktop database'' s)))))
      in case body of
           (Inl e, s) \<Rightarrow>
             (Inr (), logger ERROR (''Error generating desktop file for '' @ appimage_path) s)
         | (Inr u, s) \<Rightarrow> (Inr u, s))"

section \<open>Notions of the specification\<close>

text \<open>
  The format of a candidate is read off its \<open>pathlib\<close> suffix, lower-cased, as the
  scoring and the copy loop do; a file without such a suffix has none. The score: base
  by format (nothing without a format), plus the size bonus, plus the pixel bonus for PNG
  when the dimensions are known.
\<close>

datatype icon_format = SVG | PNG | XPM | ICO

definition format_of :: "dir_entry \<Rightarrow> icon_format option" where
  "format_of c =
     (let sfx = lower (path_suffix (filename c)) in
      if sfx = ''.svg'' then Some SVG
      else if sfx = ''.png'' then Some PNG
      else if sfx = ''.xpm'' then Some XPM
      else if sfx = ''.ico'' then Some ICO
      else None)"

fun base_score :: "icon_format option \<Rightarrow> int" where
  "base_score (Some SVG) = 1000"
| "base_score (Some PNG) = 500"
| "base_score (Some XPM) = 100"
| "base_score (Some ICO) = 50"
| "base_score None = 0"

definition candidate_score :: "icon_format option \<Rightarrow> nat \<Rightarrow> (nat \<times> nat) option \<Rightarrow> int" where
  "candidate_score fmt fileSizeBytes dims =
     base_score fmt + min (int fileSizeBytes div 1024) 100 +
     (case dims of
        None \<Rightarrow> 0
      | Some (pixelWidth, pixelHeight) \<Rightarrow>
          if fmt = Some PNG then min (int (pixelWidth * pixelHeight) div 1000) 200 else 0)"

definition pixel_dims :: "dir_entry \<Rightarrow> (nat \<times> nat) option" where
  "pixel_dims c = (case image_size c of Inl e \<Rightarrow> None | Inr d \<Rightarrow> Some d)"

definition size_known :: "dir_entry \<Rightarrow> bool" where
  "size_known c = (case st_size c of Inl e \<Rightarrow> False | Inr n \<Rightarrow> True)"

definition byte_size :: "dir_entry \<Rightarrow> nat" where
  "byte_size c = (case st_size c of Inl e \<Rightarrow> 0 | Inr n \<Rightarrow> n)"

text \<open>The score the loop computes for a candidate whose size can be read.\<close>

definition score_of :: "dir_entry \<Rightarrow> int" where
  "score_of c = icon_score c (byte_size c)"

text \<open>
  For a candidate: the cache subdirectory, the path the copy loop names
  (\<open>dest_path_no_ext\<close>), and the path the copy lands on.
\<close>

definition subdir_of :: "string \<Rightarrow> dir_entry \<Rightarrow> string" where
  "subdir_of icon_cache_dir c = cache_subdir icon_cache_dir c (byte_size c)"

definition cache_dest :: "string \<Rightarrow> dir_entry \<Rightarrow> string" where
  "cache_dest icon_cache_dir c =
     joinpath (subdir_of icon_cache_dir c) (path_stem (filename c))"

definition dest_is_dir :: "world \<Rightarrow> string \<Rightarrow> dir_entry \<Rightarrow> bool" where
  "dest_is_dir w icon_cache_dir c =
     copy2_dst_isdir w (subdir_of icon_cache_dir c) (cache_dest icon_cache_dir c)"

definition copy_target :: "world \<Rightarrow> string \<Rightarrow> dir_entry \<Rightarrow> string" where
  "copy_target w icon_cache_dir c =
     (if dest_is_dir w icon_cache_dir c
      then os_path_join (cache_dest icon_cache_dir c) (filename c)
      else cache_dest icon_cache_dir c)"

text \<open>
  What the environment answers to the three calls of the copy loop on a candidate, the
  state a successful copy leaves (the log record apart), whether all the copies of a list
  succeed from a state, and the paths written until the loop ends or raises.
\<close>

definition copy_ok :: "world \<Rightarrow> string \<Rightarrow> dir_entry \<Rightarrow> bool" where
  "copy_ok w icon_cache_dir c =
     (size_known c \<and>
      mkdir_subdir w (subdir_of icon_cache_dir c) = None \<and>
      copy2 w (joinpath (root c) (filename c)) (copy_target w icon_cache_dir c) = None)"

definition refused :: "world \<Rightarrow> state \<Rightarrow> string \<Rightarrow> bool" where
  "refused w s path = (\<not> is_root w \<and> read_only s path)"

definition copied :: "world \<Rightarrow> string \<Rightarrow> dir_entry \<Rightarrow> state \<Rightarrow> state" where
  "copied w icon_cache_dir c s =
     s\<lparr>files := (files s)(copy_target w icon_cache_dir c \<mapsto> data c),
       modes := (modes s)(copy_target w icon_cache_dir c \<mapsto> st_mode c)\<rparr>"

fun copies_ok :: "world \<Rightarrow> string \<Rightarrow> dir_entry list \<Rightarrow> state \<Rightarrow> bool" where
  "copies_ok w icon_cache_dir [] s = True"
| "copies_ok w icon_cache_dir (c # cs) s =
     (copy_ok w icon_cache_dir c \<and> \<not> refused w s (copy_target w icon_cache_dir c) \<and>
      copies_ok w icon_cache_dir cs (copied w icon_cache_dir c s))"

fun written :: "world \<Rightarrow> string \<Rightarrow> dir_entry list \<Rightarrow> state \<Rightarrow> string set" where
  "written w icon_cache_dir [] s = {}"
| "written w icon_cache_dir (c # cs) s =
     (if copy_ok w icon_cache_dir c \<and> \<not> refused w s (copy_target w icon_cache_dir c)
      then insert (copy_target w icon_cache_dir c)
             (written w icon_cache_dir cs (copied w icon_cache_dir c s))
      else {})"

text \<open>The entry file of the specification's section 6, line by line.\<close>

definition entry_text :: "string \<Rightarrow> string \<Rightarrow> string \<Rightarrow> string \<Rightarrow> string" where
  "entry_text name bundle_path icon category =
     concat (map (\<lambda>l. l @ newline)
       [''[Desktop Entry]'',
        ''Type=Application'',
        ''Name='' @ name,
        ''Comment=AppImage Application'',
        ''Exec='' @ bundle_path @ '' %u'',
        ''Icon='' @ icon,
        ''Terminal=false'',
        ''Categories='' @ category])"

definition icon_or_fallback :: "exn + string option \<Rightarrow> string" where
  "icon_or_fallback r =
     (case r of Inr (Some n) \<Rightarrow> n | _ \<Rightarrow> ''application-x-executable'')"

definition entry_path :: "string \<Rightarrow> string \<Rightarrow> string" where
  "entry_path applications_dir bundle_path =
     joinpath applications_dir (path_stem (path_name bundle_path) @ ''.desktop'')"

definition owner_executable :: "nat \<Rightarrow> bool" where
  "owner_executable mode = odd (mode div 64)"

section \<open>Sample environments\<close>

text \<open>Permission bits \<open>0o644\<close> are 420, \<open>0o444\<close> are 292.\<close>

definition sample_files :: "dir_entry list" where
  "sample_files =
     [\<lparr>root = ''/tmp/t/squashfs-root'', filename = ''app.PNG'', st_size = Inr 20000,
        st_mode = 420, image_size = Inl ImportError, data = ''png-small''\<rparr>,
      \<lparr>root = ''/tmp/t/squashfs-root'', filename = ''AppRun'', st_size = Inr 900,
        st_mode = 493, image_size = Inl OtherException, data = ''run''\<rparr>,
      \<lparr>root = ''/tmp/t/squashfs-root/usr/share/icons'', filename = ''app.svg'',
        st_size = Inr 3000, st_mode = 420, image_size = Inl OtherException,
        data = ''svg-first''\<rparr>,
      \<lparr>root = ''/tmp/t/squashfs-root/usr/share/pixmaps'', filename = ''logo.svg'',
        st_size = Inr 3000, st_mode = 420, image_size = Inl OtherException,
        data = ''svg-second''\<rparr>,
      \<lparr>root = ''/tmp/t/squashfs-root/usr/share/pixmaps'', filename = ''app.xpm'',
        st_size = Inr 120000, st_mode = 420, image_size = Inl OtherException,
        data = ''xpm''\<rparr>]"

definition sample_world :: world where
  "sample_world =
     \<lparr>home = ''/home/u'', is_root = False, isdir = (\<lambda>p. False), mkdir_icon_cache = None,
      mkdtemp = None, run_extract = Inr 0, walk = sample_files,
      mkdir_subdir = (\<lambda>d. None), copy2 = (\<lambda>src dst. None),
      open_w = (\<lambda>f. None), chmod = (\<lambda>f. None), run_update_db = Inr 0\<rparr>"

definition failing_world :: world where
  "failing_world = sample_world\<lparr>run_extract := Inl FileNotFoundError\<rparr>"

definition empty_state :: state where
  "empty_state = \<lparr>files = Map.empty, modes = Map.empty, logged = []\<rparr>"

text \<open>A hidden file named \<open>.png\<close>, and a dangling symlink named \<open>icon.png\<close>.\<close>

definition dot_png :: dir_entry where
  "dot_png = \<lparr>root = ''/tmp/t/squashfs-root'', filename = ''.png'', st_size = Inr 0,
              st_mode = 420, image_size = Inl OtherException, data = []\<rparr>"

definition dangling_png :: dir_entry where
  "dangling_png = \<lparr>root = ''/tmp/t/squashfs-root'', filename = ''icon.png'',
                   st_size = Inl FileNotFoundError, st_mode = 420,
                   image_size = Inl FileNotFoundError, data = []\<rparr>"

definition dangling_world :: world where
  "dangling_world = sample_world\<lparr>walk := [dangling_png]\<rparr>"

text \<open>
  Files named \<open>.svg\<close>, \<open>.png\<close> (20000 bytes) and \<open>..png\<close>, an ordinary \<open>a.ico\<close>,
  and a read-only \<open>app.png\<close>, each in an environment of its own.
\<close>

definition dot_svg :: dir_entry where
  "dot_svg = \<lparr>root = ''/tmp/t/squashfs-root'', filename = ''.svg'', st_size = Inr 0,
              st_mode = 420, image_size = Inl OtherException, data = ''svg''\<rparr>"

definition a_ico :: dir_entry where
  "a_ico = \<lparr>root = ''/tmp/t/squashfs-root'', filename = ''a.ico'', st_size = Inr 0,
            st_mode = 420, image_size = Inl OtherException, data = ''ico''\<rparr>"

definition big_dot_png :: dir_entry where
  "big_dot_png = \<lparr>root = ''/tmp/t/squashfs-root'', filename = ''.png'', st_size = Inr 20000,
                  st_mode = 420, image_size = Inl OtherException, data = ''png''\<rparr>"

definition dotdot_png :: dir_entry where
  "dotdot_png = \<lparr>root = ''/tmp/t/squashfs-root'', filename = ''..png'', st_size = Inr 0,
                 st_mode = 420, image_size = Inl OtherException, data = ''dots''\<rparr>"


definition dotfile_world :: world where
  "dotfile_world = sample_world\<lparr>walk := [dot_svg, a_ico]\<rparr>"

definition dotdot_world :: world where
  "dotdot_world = sample_world\<lparr>walk := [dot_svg, dotdot_png]\<rparr>"


text \<open>
  An environment where the bundle cannot be run and the entry file cannot be opened, one
  without the \<open>update-desktop-database\<close> command, a handler, and a batch of two
  bundles of which the first meets the read-only environment.
\<close>

definition readonly_world :: world where
  "readonly_world = failing_world\<lparr>open_w := (\<lambda>f. Some OtherException)\<rparr>"

definition no_updater_world :: world where
  "no_updater_world = sample_world\<lparr>run_update_db := Inl FileNotFoundError\<rparr>"

definition sample_handler :: AppImageHandler where
  "sample_handler =
     \<lparr>self_appimage_dir = ''/home/u/AppImages'',
      self_desktop_dir = ''/home/u/.local/share/applications''\<rparr>"

definition sample_bundles :: "string list" where
  "sample_bundles = [''/home/u/AppImages/A.AppImage'', ''/home/u/AppImages/B.AppImage'']"

definition sample_worlds :: "string \<Rightarrow> world" where
  "sample_worlds a =
     (if a = ''/home/u/AppImages/A.AppImage'' then readonly_world else sample_world)"

section \<open>Properties of the classifier\<close>

lemma detect_category_classify: "detect_category name = classify name"
  by (simp add: detect_category_def classify_def category_table_def group_matches_def
      any_in_def Let_def)

lemma handler_detect_category_classify:
  "AppImageHandler_detect_category self name = classify name"
  by (simp add: AppImageHandler_detect_category_def classify_def category_table_def
      group_matches_def any_in_def Let_def)

lemma find_filter_hd:
  "(case find P xs of None \<Rightarrow> d | Some g \<Rightarrow> f g) = (case filter P xs of [] \<Rightarrow> d | g # _ \<Rightarrow> f g)"
  by (induction xs) auto

lemma classify_matching_groups:
  "classify name = (case matching_groups name of [] \<Rightarrow> ''Utility;'' | g # _ \<Rightarrow> snd g)"
  unfolding classify_def matching_groups_def by (rule find_filter_hd)


lemma hits_nil_iff:
  "concat (map (\<lambda>g. map (\<lambda>kw. (kw, snd g)) (filter Q (fst g))) xs) = []
   \<longleftrightarrow> filter (\<lambda>g. list_ex Q (fst g)) xs = []"
  by (induction xs) (auto simp: list_ex_iff filter_empty_conv)

lemma hits_single:
  "concat (map (\<lambda>g. map (\<lambda>kw. (kw, snd g)) (filter Q (fst g))) xs) = [(kw, cat)]
   \<Longrightarrow> \<exists>g. filter (\<lambda>g. list_ex Q (fst g)) xs = [g] \<and> snd g = cat"
proof (induction xs)
  case Nil
  then show ?case by simp
next
  case (Cons g xs)
  let ?h = "map (\<lambda>kw. (kw, snd g)) (filter Q (fst g))"
  let ?r = "concat (map (\<lambda>g. map (\<lambda>kw. (kw, snd g)) (filter Q (fst g))) xs)"
  from Cons.prems have eq: "?h @ ?r = [(kw, cat)]" by simp
  then consider "?h = [(kw, cat)]" "?r = []" | "?h = []" "?r = [(kw, cat)]"
    by (auto simp: append_eq_Cons_conv)
  then show ?case
  proof cases
    case 1
    from 1(1) have m: "list_ex Q (fst g)" and c: "snd g = cat"
      by (auto simp: list_ex_iff map_eq_Cons_conv filter_eq_Cons_iff)
    from 1(2) have "filter (\<lambda>g. list_ex Q (fst g)) xs = []" by (simp only: hits_nil_iff)
    with m c show ?thesis by simp
  next
    case 2
    from 2(1) have m: "\<not> list_ex Q (fst g)" by (auto simp: list_ex_iff filter_empty_conv)
    from Cons.IH[OF 2(2)] m show ?thesis by simp
  qed
qed

lemma keyword_hits_single:
  "keyword_hits name = [(kw, cat)] \<Longrightarrow> \<exists>g. matching_groups name = [g] \<and> snd g = cat"
  unfolding keyword_hits_def matching_groups_def group_matches_def by (rule hits_single)

lemma distinct_categories: "distinct (map snd category_table)"
  by (simp add: category_table_def)

lemma matching_groups_distinct: "distinct (map snd (matching_groups name))"
  unfolding matching_groups_def using distinct_categories by (rule distinct_map_filter)

text \<open>
  C2. The classifier of both programs is the one the specification describes: the
  lower-cased name is tested against the seven groups of the table in their order, the
  category of the first matching group is returned, and \<open>Utility;\<close> when none matches.
  A name that matches the browser group is a browser whatever else it matches, as
  \<open>firefox-Games-edition\<close> shows.
\<close>

theorem detect_category_first_matching_group:
  "detect_category app_name = classify app_name \<and>
   AppImageHandler_detect_category self app_name = classify app_name \<and>
   (group_matches app_name (category_table ! 0) \<longrightarrow>
      detect_category app_name = ''Network;WebBrowser;'') \<and>
   detect_category ''firefox-Games-edition'' = ''Network;WebBrowser;''"
proof (intro conjI impI)
  show "detect_category app_name = classify app_name" by (rule detect_category_classify)
  show "AppImageHandler_detect_category self app_name = classify app_name"
    by (rule handler_detect_category_classify)
  show "detect_category ''firefox-Games-edition'' = ''Network;WebBrowser;''" by code_simp
next
  assume "group_matches app_name (category_table ! 0)"
  then show "detect_category app_name = ''Network;WebBrowser;''"
    by (simp add: detect_category_classify classify_def category_table_def)
qed

theorem detect_category_first_matching_group_witness:
  "group_matches ''firefox-Games-edition'' (category_table ! 0) \<and>
   group_matches ''firefox-Games-edition'' (category_table ! 5) \<and>
   detect_category ''firefox-Games-edition'' = ''Network;WebBrowser;'' \<and>
   detect_category ''firefox-Games-edition'' = classify ''firefox-Games-edition''"
proof -
  have browser: "group_matches ''firefox-Games-edition'' (category_table ! 0)" by code_simp
  have game: "group_matches ''firefox-Games-edition'' (category_table ! 5)" by code_simp
  from detect_category_first_matching_group[of "''firefox-Games-edition''"] browser game
  show ?thesis by blast
qed

text \<open>
  C8. When exactly one keyword of the whole table occurs in the lower-cased name, the
  result is the category of that keyword's group. When keywords of two or more groups
  occur, the group listed first in the table wins, and the next one does not.
\<close>

theorem classify_single_keyword_and_earlier_group:
  "(keyword_hits name = [(kw, cat)] \<longrightarrow> detect_category name = cat) \<and>
   (matching_groups name = g1 # g2 # gs \<longrightarrow>
      detect_category name = snd g1 \<and> detect_category name \<noteq> snd g2)"
proof (intro conjI impI)
  assume "keyword_hits name = [(kw, cat)]"
  then obtain g where "matching_groups name = [g]" "snd g = cat"
    using keyword_hits_single by blast
  then show "detect_category name = cat"
    by (simp add: detect_category_classify classify_matching_groups)
next
  assume a: "matching_groups name = g1 # g2 # gs"
  then show "detect_category name = snd g1"
    by (simp add: detect_category_classify classify_matching_groups)
  from matching_groups_distinct[of name] a have "snd g1 \<noteq> snd g2" by simp
  with a show "detect_category name \<noteq> snd g2"
    by (simp add: detect_category_classify classify_matching_groups)
qed

theorem classify_single_keyword_and_earlier_group_witness:
  "keyword_hits ''gimp-2.10'' = [(''gimp'', ''Graphics;2DGraphics;3DGraphics;'')] \<and>
   detect_category ''gimp-2.10'' = ''Graphics;2DGraphics;3DGraphics;'' \<and>
   matching_groups ''firefox-Games-edition'' = [category_table ! 0, category_table ! 5] \<and>
   detect_category ''firefox-Games-edition'' = snd (category_table ! 0) \<and>
   detect_category ''firefox-Games-edition'' \<noteq> snd (category_table ! 5)"
proof -
  have one: "keyword_hits ''gimp-2.10'' = [(''gimp'', ''Graphics;2DGraphics;3DGraphics;'')]"
    by code_simp
  have two: "matching_groups ''firefox-Games-edition''
               = category_table ! 0 # category_table ! 5 # []"
    by code_simp
  from classify_single_keyword_and_earlier_group
         [of "''gimp-2.10''" "''gimp''" "''Graphics;2DGraphics;3DGraphics;''"] one
  have "detect_category ''gimp-2.10'' = ''Graphics;2DGraphics;3DGraphics;''" by blast
  moreover from classify_single_keyword_and_earlier_group
         [of "''firefox-Games-edition''" _ _ "category_table ! 0" "category_table ! 5" "[]"] two
  have "detect_category ''firefox-Games-edition'' = snd (category_table ! 0) \<and>
        detect_category ''firefox-Games-edition'' \<noteq> snd (category_table ! 5)" by blast
  ultimately show ?thesis using one two by blast
qed

section \<open>The scoring loop\<close>

lemma size_bonus_nonneg: "0 \<le> min (int n div 1024) 100"
  by (simp add: pos_imp_zdiv_nonneg_iff)

lemma pixel_bonus_nonneg: "0 \<le> min (int (a * b) div 1000) 200"
  by (simp add: pos_imp_zdiv_nonneg_iff del: of_nat_mult)

lemma format_of_suffix:
  "format_of c = Some fmt \<Longrightarrow>
   lower (path_suffix (filename c)) =
     (case fmt of SVG \<Rightarrow> ''.svg'' | PNG \<Rightarrow> ''.png'' | XPM \<Rightarrow> ''.xpm'' | ICO \<Rightarrow> ''.ico'')"
  unfolding format_of_def Let_def by (simp split: if_splits)

lemma icon_score_recognised_eq:
  assumes "format_of c = Some fmt"
  shows "icon_score c n = candidate_score (Some fmt) n (pixel_dims c)"
proof -
  note sfx = format_of_suffix[OF assms]
  show ?thesis
  proof (cases fmt)
    case SVG
    with sfx show ?thesis
      by (simp add: icon_score_def candidate_score_def Let_def split: option.splits)
  next
    case PNG
    with sfx show ?thesis
      by (simp add: icon_score_def candidate_score_def pixel_dims_def Let_def
          split: option.splits sum.splits del: of_nat_mult)
  next
    case XPM
    with sfx show ?thesis
      by (simp add: icon_score_def candidate_score_def Let_def split: option.splits)
  next
    case ICO
    with sfx show ?thesis
      by (simp add: icon_score_def candidate_score_def Let_def split: option.splits)
  qed
qed

lemma icon_score_no_format:
  assumes "format_of c = None"
  shows "icon_score c n = min (int n div 1024) 100"
  using assms unfolding format_of_def icon_score_def Let_def by (simp split: if_splits)

lemma icon_score_candidate: "icon_score c n = candidate_score (format_of c) n (pixel_dims c)"
proof (cases "format_of c")
  case None
  then show ?thesis
    by (simp add: icon_score_no_format candidate_score_def split: option.splits)
next
  case (Some fmt)
  then show ?thesis by (simp add: icon_score_recognised_eq)
qed

lemma candidate_score_ge: "50 \<le> candidate_score (Some fmt) n d"
proof -
  have "50 \<le> base_score (Some fmt)" by (cases fmt) simp_all
  moreover have "0 \<le> (case d of None \<Rightarrow> 0
      | Some (pw, ph) \<Rightarrow>
          if Some fmt = Some PNG then min (int (pw * ph) div 1000) 200 else (0::int))"
    using pixel_bonus_nonneg by (simp split: option.splits prod.splits del: of_nat_mult)
  ultimately show ?thesis
    unfolding candidate_score_def using size_bonus_nonneg[of n] by linarith
qed

lemma icon_score_recognised: "format_of c = Some fmt \<Longrightarrow> 50 \<le> icon_score c n"
  by (simp add: icon_score_recognised_eq candidate_score_ge)

lemma icon_score_nonneg: "0 \<le> icon_score c n"
proof (cases "format_of c")
  case None
  then show ?thesis using size_bonus_nonneg[of n] by (simp add: icon_score_no_format)
next
  case (Some fmt)
  then show ?thesis using icon_score_recognised[OF Some, of n] by simp
qed

lemma score_of_nonneg: "0 \<le> score_of c"
  by (simp add: score_of_def icon_score_nonneg)

lemma score_loop_step:
  "st_size c = Inr n \<Longrightarrow>
   score_loop (c # cs) (b, bs) s =
     (if icon_score c n > bs then score_loop cs (Some c, icon_score c n) (png_probe_log c s)
      else score_loop cs (b, bs) (png_probe_log c s))"
  by (simp add: Let_def)

lemma score_loop_first_max:
  "list_all size_known cs \<Longrightarrow>
   (fst (score_loop cs (b, bs) s) = Inr (b, bs) \<and> (\<forall>c\<in>set cs. score_of c \<le> bs)) \<or>
   (\<exists>pre best post. cs = pre @ best # post \<and> bs < score_of best \<and>
      (\<forall>c\<in>set pre. score_of c < score_of best) \<and>
      (\<forall>c\<in>set post. score_of c \<le> score_of best) \<and>
      fst (score_loop cs (b, bs) s) = Inr (Some best, score_of best))"
proof (induction cs arbitrary: b bs s)
  case Nil
  then show ?case by simp
next
  case (Cons c cs)
  from Cons.prems have known: "size_known c" and rest: "list_all size_known cs"
    by simp_all
  from known obtain n where n: "st_size c = Inr n"
    by (cases "st_size c") (simp_all add: size_known_def)
  have sc: "score_of c = icon_score c n" by (simp add: score_of_def byte_size_def n)
  show ?case
  proof (cases "score_of c > bs")
    case True
    then have step: "score_loop (c # cs) (b, bs) s
        = score_loop cs (Some c, score_of c) (png_probe_log c s)"
      using score_loop_step[OF n] sc by simp
    from Cons.IH[OF rest, of "Some c" "score_of c" "png_probe_log c s"]
    show ?thesis
    proof
      assume a: "fst (score_loop cs (Some c, score_of c) (png_probe_log c s))
                   = Inr (Some c, score_of c) \<and> (\<forall>x\<in>set cs. score_of x \<le> score_of c)"
      have "c # cs = [] @ c # cs" by simp
      with a True step show ?thesis by (metis empty_iff list.set(1))
    next
      assume "\<exists>pre best post. cs = pre @ best # post \<and> score_of c < score_of best \<and>
        (\<forall>c\<in>set pre. score_of c < score_of best) \<and>
        (\<forall>c\<in>set post. score_of c \<le> score_of best) \<and>
        fst (score_loop cs (Some c, score_of c) (png_probe_log c s)) = Inr (Some best, score_of best)"
      then obtain pre best post where p: "cs = pre @ best # post" "score_of c < score_of best"
        "\<forall>c\<in>set pre. score_of c < score_of best" "\<forall>c\<in>set post. score_of c \<le> score_of best"
        "fst (score_loop cs (Some c, score_of c) (png_probe_log c s)) = Inr (Some best, score_of best)"
        by blast
      have "c # cs = (c # pre) @ best # post" using p(1) by simp
      moreover have "\<forall>x\<in>set (c # pre). score_of x < score_of best" using p(2,3) by simp
      moreover have "bs < score_of best" using True p(2) by simp
      ultimately show ?thesis using p(4,5) step by metis
    qed
  next
    case False
    then have step: "score_loop (c # cs) (b, bs) s
        = score_loop cs (b, bs) (png_probe_log c s)"
      using score_loop_step[OF n] sc by simp
    from Cons.IH[OF rest, of b bs "png_probe_log c s"]
    show ?thesis
    proof
      assume "fst (score_loop cs (b, bs) (png_probe_log c s)) = Inr (b, bs)
                \<and> (\<forall>x\<in>set cs. score_of x \<le> bs)"
      with False step show ?thesis by auto
    next
      assume "\<exists>pre best post. cs = pre @ best # post \<and> bs < score_of best \<and>
        (\<forall>c\<in>set pre. score_of c < score_of best) \<and>
        (\<forall>c\<in>set post. score_of c \<le> score_of best) \<and>
        fst (score_loop cs (b, bs) (png_probe_log c s)) = Inr (Some best, score_of best)"
      then obtain pre best post where p: "cs = pre @ best # post" "bs < score_of best"
        "\<forall>c\<in>set pre. score_of c < score_of best" "\<forall>c\<in>set post. score_of c \<le> score_of best"
        "fst (score_loop cs (b, bs) (png_probe_log c s)) = Inr (Some best, score_of best)"
        by blast
      have "c # cs = (c # pre) @ best # post" using p(1) by simp
      moreover have "\<forall>x\<in>set (c # pre). score_of x < score_of best" using p(2,3) False by simp
      ultimately show ?thesis using p(2,4,5) step by metis
    qed
  qed
qed

lemma score_loop_selects:
  assumes "cs \<noteq> []" "list_all size_known cs"
  shows "\<exists>pre best post. cs = pre @ best # post \<and>
      (\<forall>c\<in>set pre. score_of c < score_of best) \<and>
      (\<forall>c\<in>set post. score_of c \<le> score_of best) \<and>
      fst (score_loop cs (None, - 1) s) = Inr (Some best, score_of best)"
proof -
  from assms(1) obtain c where "c \<in> set cs" by (cases cs) auto
  moreover have "\<not> score_of c \<le> - 1" using score_of_nonneg[of c] by simp
  ultimately have "\<not> (\<forall>c\<in>set cs. score_of c \<le> - 1)" by blast
  with score_loop_first_max[OF assms(2), of None "- 1" s] show ?thesis by blast
qed

text \<open>The scoring loop writes no file; it only adds log records.\<close>

lemma logger_simps [simp]:
  "files (logger l m s) = files s" "modes (logger l m s) = modes s"
  "logged (logger l m s) = logged s @ [(l, m)]"
  by (simp_all add: logger_def)

lemma png_probe_log_fs [simp]:
  "files (png_probe_log c s) = files s" "modes (png_probe_log c s) = modes s"
  by (simp_all add: png_probe_log_def split: sum.splits)

lemma png_probe_log_prefix: "prefix (logged s) (logged (png_probe_log c s))"
  by (simp add: png_probe_log_def split: sum.splits)

lemma score_loop_fs:
  "files (snd (score_loop cs best s)) = files s \<and> modes (snd (score_loop cs best s)) = modes s"
proof (induction cs arbitrary: best s)
  case Nil
  show ?case by simp
next
  case (Cons c cs)
  obtain b bs where best: "best = (b, bs)" by (cases best)
  show ?case
  proof (cases "st_size c")
    case (Inl e)
    then show ?thesis by (simp add: best)
  next
    case (Inr n)
    show ?thesis unfolding best score_loop_step[OF Inr] using Cons.IH by simp
  qed
qed

lemma score_loop_prefix: "prefix (logged s) (logged (snd (score_loop cs best s)))"
proof (induction cs arbitrary: best s)
  case Nil
  show ?case by simp
next
  case (Cons c cs)
  obtain b bs where best: "best = (b, bs)" by (cases best)
  show ?case
  proof (cases "st_size c")
    case (Inl e)
    then show ?thesis by (simp add: best)
  next
    case (Inr n)
    have "prefix (logged s) (logged (png_probe_log c s))" by (rule png_probe_log_prefix)
    moreover have "prefix (logged (png_probe_log c s))
        (logged (snd (score_loop (c # cs) best s)))"
      unfolding best score_loop_step[OF Inr] using Cons.IH by simp
    ultimately show ?thesis by (rule prefix_order.trans)
  qed
qed

lemma score_loop_result_indep: "fst (score_loop cs best s) = fst (score_loop cs best t)"
proof (induction cs arbitrary: best s t)
  case Nil
  show ?case by simp
next
  case (Cons c cs)
  obtain b bs where best: "best = (b, bs)" by (cases best)
  show ?case
  proof (cases "st_size c")
    case (Inl e)
    then show ?thesis by (simp add: best)
  next
    case (Inr n)
    show ?thesis unfolding best score_loop_step[OF Inr] using Cons.IH by simp
  qed
qed

lemma score_loop_member:
  "fst (score_loop cs (b, bs) s) = Inr (Some x, sc) \<Longrightarrow> x \<in> set cs \<or> b = Some x"
proof (induction cs arbitrary: b bs s)
  case Nil
  then show ?case by simp
next
  case (Cons c cs)
  show ?case
  proof (cases "st_size c")
    case (Inl e)
    with Cons.prems show ?thesis by simp
  next
    case (Inr n)
    from Cons.prems Cons.IH show ?thesis
      unfolding score_loop_step[OF Inr] by (fastforce split: if_splits)
  qed
qed

lemma score_loop_Inr_sizes:
  "fst (score_loop cs best s) = Inr r \<Longrightarrow> list_all size_known cs"
proof (induction cs arbitrary: best s)
  case Nil
  show ?case by simp
next
  case (Cons c cs)
  obtain b bs where best: "best = (b, bs)" by (cases best)
  show ?case
  proof (cases "st_size c")
    case (Inl e)
    with Cons.prems show ?thesis by (simp add: best)
  next
    case (Inr n)
    then have "size_known c" by (simp add: size_known_def)
    moreover from Cons.prems Cons.IH have "list_all size_known cs"
      unfolding best score_loop_step[OF Inr] by (auto split: if_splits)
    ultimately show ?thesis by simp
  qed
qed

lemma score_loop_Inl_sizes:
  "\<not> list_all size_known cs \<Longrightarrow> \<exists>e. fst (score_loop cs best s) = Inl e"
  using score_loop_Inr_sizes by (cases "fst (score_loop cs best s)") auto


section \<open>The copy loop\<close>

lemma read_only_logger [simp]: "read_only (logger l m s) p = read_only s p"
  by (simp add: read_only_def split: option.splits)

lemma refused_logger [simp]: "refused w (logger l m s) p = refused w s p"
  by (simp add: refused_def)

lemma read_only_cong:
  "files s p = files t p \<Longrightarrow> modes s p = modes t p \<Longrightarrow> read_only s p = read_only t p"
  by (simp add: read_only_def split: option.splits)

lemma refused_cong:
  "files s p = files t p \<Longrightarrow> modes s p = modes t p \<Longrightarrow> refused w s p = refused w t p"
  unfolding refused_def by (simp add: read_only_def split: option.splits)

lemma copied_simps [simp]:
  "files (copied w icd c s) = (files s)(copy_target w icd c \<mapsto> data c)"
  "modes (copied w icd c s) = (modes s)(copy_target w icd c \<mapsto> st_mode c)"
  "logged (copied w icd c s) = logged s"
  by (simp_all add: copied_def)

lemma copy_loop_Cons:
  assumes n: "st_size c = Inr n"
  shows "copy_loop w icd (c # cs) s =
     (case mkdir_subdir w (subdir_of icd c) of
        Some e \<Rightarrow> (Inl e, s)
      | None \<Rightarrow>
          if refused w s (copy_target w icd c) then (Inl PermissionError, s)
          else
            (case copy2 w (joinpath (root c) (filename c)) (copy_target w icd c) of
               Some e \<Rightarrow> (Inl e, s)
             | None \<Rightarrow>
                 copy_loop w icd cs
                   (logger INFO (''Cached icon: '' @ cache_dest icd c) (copied w icd c s))))"
proof -
  have bs: "byte_size c = n" by (simp add: byte_size_def n)
  have sub: "cache_subdir icd c n = subdir_of icd c" by (simp add: subdir_of_def bs)
  have dest: "joinpath (subdir_of icd c) (path_stem (filename c)) = cache_dest icd c"
    by (simp add: cache_dest_def)
  have isd: "copy2_dst_isdir w (subdir_of icd c) (cache_dest icd c) = dest_is_dir w icd c"
    by (simp add: dest_is_dir_def)
  have tgt: "(if dest_is_dir w icd c then os_path_join (cache_dest icd c) (filename c)
              else cache_dest icd c) = copy_target w icd c"
    by (simp add: copy_target_def)
  have rf: "(\<not> is_root w \<and> read_only s x) = refused w s x" for x
    by (simp add: refused_def)
  have cp: "s\<lparr>files := (files s)(copy_target w icd c \<mapsto> data c),
             modes := (modes s)(copy_target w icd c \<mapsto> st_mode c)\<rparr> = copied w icd c s"
    by (simp add: copied_def)
  show ?thesis
    unfolding copy_loop.simps n sum.case Let_def sub dest isd tgt rf cp by (rule refl)
qed

lemma copy_loop_step_ok:
  assumes "copy_ok w icd c" and "\<not> refused w s (copy_target w icd c)"
  shows "copy_loop w icd (c # cs) s =
     copy_loop w icd cs (logger INFO (''Cached icon: '' @ cache_dest icd c) (copied w icd c s))"
proof -
  from assms(1) obtain n where n: "st_size c = Inr n"
    by (cases "st_size c") (simp_all add: copy_ok_def size_known_def)
  from assms show ?thesis
    unfolding copy_loop_Cons[OF n] copy_ok_def by simp
qed

lemma copy_loop_step_fail:
  assumes "\<not> (copy_ok w icd c \<and> \<not> refused w s (copy_target w icd c))"
  shows "\<exists>e. copy_loop w icd (c # cs) s = (Inl e, s)"
proof (cases "st_size c")
  case (Inl e)
  then show ?thesis by simp
next
  case (Inr n)
  have k: "size_known c" by (simp add: size_known_def Inr)
  show ?thesis
  proof (cases "mkdir_subdir w (subdir_of icd c)")
    case (Some e)
    then show ?thesis unfolding copy_loop_Cons[OF Inr] by simp
  next
    case None
    show ?thesis
    proof (cases "refused w s (copy_target w icd c)")
      case True
      with None show ?thesis unfolding copy_loop_Cons[OF Inr] by simp
    next
      case False
      with assms k None obtain e
        where "copy2 w (joinpath (root c) (filename c)) (copy_target w icd c) = Some e"
        unfolding copy_ok_def by auto
      with None False show ?thesis unfolding copy_loop_Cons[OF Inr] by simp
    qed
  qed
qed

lemma copy_loop_step_result:
  assumes "\<not> (copy_ok w icd c \<and> \<not> refused w s (copy_target w icd c))"
    and "refused w t (copy_target w icd c) = refused w s (copy_target w icd c)"
  shows "fst (copy_loop w icd (c # cs) t) = fst (copy_loop w icd (c # cs) s)"
proof (cases "st_size c")
  case (Inl e)
  then show ?thesis by simp
next
  case (Inr n)
  have k: "size_known c" by (simp add: size_known_def Inr)
  show ?thesis
  proof (cases "mkdir_subdir w (subdir_of icd c)")
    case (Some e)
    then show ?thesis unfolding copy_loop_Cons[OF Inr] by simp
  next
    case None
    show ?thesis
    proof (cases "refused w s (copy_target w icd c)")
      case True
      with None assms(2) show ?thesis unfolding copy_loop_Cons[OF Inr] by simp
    next
      case False
      with assms(1) k None obtain e
        where "copy2 w (joinpath (root c) (filename c)) (copy_target w icd c) = Some e"
        unfolding copy_ok_def by auto
      with None False assms(2) show ?thesis unfolding copy_loop_Cons[OF Inr] by simp
    qed
  qed
qed

lemma copies_ok_cong:
  "files s = files t \<Longrightarrow> modes s = modes t \<Longrightarrow> copies_ok w icd cs s = copies_ok w icd cs t"
proof (induction cs arbitrary: s t)
  case Nil
  show ?case by simp
next
  case (Cons c cs)
  have "refused w s (copy_target w icd c) = refused w t (copy_target w icd c)"
    by (rule refused_cong) (simp_all add: Cons.prems)
  moreover have "copies_ok w icd cs (copied w icd c s) = copies_ok w icd cs (copied w icd c t)"
    by (rule Cons.IH) (simp_all add: Cons.prems)
  ultimately show ?case by simp
qed

lemma written_cong:
  "files s = files t \<Longrightarrow> modes s = modes t \<Longrightarrow> written w icd cs s = written w icd cs t"
proof (induction cs arbitrary: s t)
  case Nil
  show ?case by simp
next
  case (Cons c cs)
  have "refused w s (copy_target w icd c) = refused w t (copy_target w icd c)"
    by (rule refused_cong) (simp_all add: Cons.prems)
  moreover have "written w icd cs (copied w icd c s) = written w icd cs (copied w icd c t)"
    by (rule Cons.IH) (simp_all add: Cons.prems)
  ultimately show ?case by simp
qed

lemma copy_loop_ok:
  "copies_ok w icd cs s \<Longrightarrow>
   fst (copy_loop w icd cs s) = Inr () \<and>
   files (snd (copy_loop w icd cs s))
     = fold (\<lambda>c m. m(copy_target w icd c \<mapsto> data c)) cs (files s) \<and>
   modes (snd (copy_loop w icd cs s))
     = fold (\<lambda>c m. m(copy_target w icd c \<mapsto> st_mode c)) cs (modes s)"
proof (induction cs arbitrary: s)
  case Nil
  show ?case by simp
next
  case (Cons c cs)
  let ?s1 = "logger INFO (''Cached icon: '' @ cache_dest icd c) (copied w icd c s)"
  from Cons.prems have ok: "copy_ok w icd c" "\<not> refused w s (copy_target w icd c)"
    and rest: "copies_ok w icd cs (copied w icd c s)" by simp_all
  have "copies_ok w icd cs ?s1" using rest copies_ok_cong[of ?s1 "copied w icd c s"] by simp
  from Cons.IH[OF this] show ?case unfolding copy_loop_step_ok[OF ok] by simp
qed

lemma copy_loop_fail:
  "\<not> copies_ok w icd cs s \<Longrightarrow> \<exists>e. fst (copy_loop w icd cs s) = Inl e"
proof (induction cs arbitrary: s)
  case Nil
  then show ?case by simp
next
  case (Cons c cs)
  let ?s1 = "logger INFO (''Cached icon: '' @ cache_dest icd c) (copied w icd c s)"
  show ?case
  proof (cases "copy_ok w icd c \<and> \<not> refused w s (copy_target w icd c)")
    case True
    with Cons.prems have "\<not> copies_ok w icd cs (copied w icd c s)" by simp
    then have "\<not> copies_ok w icd cs ?s1"
      using copies_ok_cong[of ?s1 "copied w icd c s"] by simp
    from Cons.IH[OF this] show ?thesis
      unfolding copy_loop_step_ok[OF conjunct1[OF True] conjunct2[OF True]] .
  next
    case False
    from copy_loop_step_fail[OF False, of cs] show ?thesis by auto
  qed
qed

lemma copy_loop_prefix: "prefix (logged s) (logged (snd (copy_loop w icd cs s)))"
proof (induction cs arbitrary: s)
  case Nil
  show ?case by simp
next
  case (Cons c cs)
  let ?s1 = "logger INFO (''Cached icon: '' @ cache_dest icd c) (copied w icd c s)"
  show ?case
  proof (cases "copy_ok w icd c \<and> \<not> refused w s (copy_target w icd c)")
    case True
    have "prefix (logged s) (logged ?s1)" by simp
    also have "prefix (logged ?s1) (logged (snd (copy_loop w icd (c # cs) s)))"
      unfolding copy_loop_step_ok[OF conjunct1[OF True] conjunct2[OF True]]
      by (rule Cons.IH)
    finally show ?thesis .
  next
    case False
    from copy_loop_step_fail[OF False, of cs] show ?thesis by auto
  qed
qed

lemma copy_loop_frame:
  "x \<notin> written w icd cs s \<Longrightarrow>
   files (snd (copy_loop w icd cs s)) x = files s x \<and>
   modes (snd (copy_loop w icd cs s)) x = modes s x"
proof (induction cs arbitrary: s)
  case Nil
  show ?case by simp
next
  case (Cons c cs)
  let ?s1 = "logger INFO (''Cached icon: '' @ cache_dest icd c) (copied w icd c s)"
  show ?case
  proof (cases "copy_ok w icd c \<and> \<not> refused w s (copy_target w icd c)")
    case True
    with Cons.prems have ne: "x \<noteq> copy_target w icd c"
      and nw: "x \<notin> written w icd cs (copied w icd c s)" by simp_all
    from nw have "x \<notin> written w icd cs ?s1"
      using written_cong[of ?s1 "copied w icd c s"] by simp
    from Cons.IH[OF this] ne show ?thesis
      unfolding copy_loop_step_ok[OF conjunct1[OF True] conjunct2[OF True]] by simp
  next
    case False
    from copy_loop_step_fail[OF False, of cs] show ?thesis by auto
  qed
qed

lemma written_targets: "written w icd cs s \<subseteq> copy_target w icd ` set cs"
  by (induction cs arbitrary: s) auto


lemma copy_loop_again:
  assumes "\<forall>x\<in>copy_target w icd ` set cs.
             (files t x = files s x \<and> modes t x = modes s x) \<or>
             (x \<in> written w icd cs s \<and> \<not> refused w t x)"
  shows "fst (copy_loop w icd cs t) = fst (copy_loop w icd cs s) \<and>
         written w icd cs t = written w icd cs s \<and>
         (\<forall>x\<in>written w icd cs s.
            files (snd (copy_loop w icd cs t)) x = files (snd (copy_loop w icd cs s)) x \<and>
            modes (snd (copy_loop w icd cs t)) x = modes (snd (copy_loop w icd cs s)) x)"
  using assms
proof (induction cs arbitrary: s t)
  case Nil
  show ?case by simp
next
  case (Cons c cs)
  let ?x = "copy_target w icd c"
  let ?m = "''Cached icon: '' @ cache_dest icd c"
  let ?s1 = "logger INFO ?m (copied w icd c s)"
  let ?t1 = "logger INFO ?m (copied w icd c t)"
  from Cons.prems have here: "(files t ?x = files s ?x \<and> modes t ?x = modes s ?x) \<or>
      (?x \<in> written w icd (c # cs) s \<and> \<not> refused w t ?x)" by simp
  show ?case
  proof (cases "copy_ok w icd c \<and> \<not> refused w s ?x")
    case False
    then have ws: "written w icd (c # cs) s = {}" by auto
    with here have "files t ?x = files s ?x \<and> modes t ?x = modes s ?x" by simp
    then have "refused w t ?x = refused w s ?x" by (intro refused_cong) simp_all
    with False have ft: "\<not> (copy_ok w icd c \<and> \<not> refused w t ?x)" by simp
    then have wt: "written w icd (c # cs) t = {}" by auto
    have "fst (copy_loop w icd (c # cs) t) = fst (copy_loop w icd (c # cs) s)"
      using False \<open>refused w t ?x = refused w s ?x\<close> by (rule copy_loop_step_result)
    with ws wt show ?thesis by simp
  next
    case True
    then have oks: "copy_ok w icd c" "\<not> refused w s ?x" by simp_all
    have nrt: "\<not> refused w t ?x"
    proof (cases "files t ?x = files s ?x \<and> modes t ?x = modes s ?x")
      case True
      then have "refused w t ?x = refused w s ?x" by (intro refused_cong) simp_all
      with oks show ?thesis by simp
    next
      case False
      with here show ?thesis by simp
    qed
    have ss: "copy_loop w icd (c # cs) s = copy_loop w icd cs ?s1"
      by (rule copy_loop_step_ok[OF oks])
    have st: "copy_loop w icd (c # cs) t = copy_loop w icd cs ?t1"
      by (rule copy_loop_step_ok[OF oks(1) nrt])
    have ws1: "written w icd cs ?s1 = written w icd cs (copied w icd c s)"
      by (rule written_cong) simp_all
    have wt1: "written w icd cs ?t1 = written w icd cs (copied w icd c t)"
      by (rule written_cong) simp_all
    have ws: "written w icd (c # cs) s = insert ?x (written w icd cs ?s1)"
      using oks ws1 by simp
    have wt: "written w icd (c # cs) t = insert ?x (written w icd cs ?t1)"
      using oks(1) nrt wt1 by simp
    have pre: "\<forall>y\<in>copy_target w icd ` set cs.
             (files ?t1 y = files ?s1 y \<and> modes ?t1 y = modes ?s1 y) \<or>
             (y \<in> written w icd cs ?s1 \<and> \<not> refused w ?t1 y)"
    proof
      fix y assume y: "y \<in> copy_target w icd ` set cs"
      show "(files ?t1 y = files ?s1 y \<and> modes ?t1 y = modes ?s1 y) \<or>
             (y \<in> written w icd cs ?s1 \<and> \<not> refused w ?t1 y)"
      proof (cases "y = ?x")
        case True
        then show ?thesis by simp
      next
        case False
        from y have yy: "y \<in> copy_target w icd ` set (c # cs)" by auto
        from bspec[OF Cons.prems yy]
        have "(files t y = files s y \<and> modes t y = modes s y) \<or>
            (y \<in> written w icd (c # cs) s \<and> \<not> refused w t y)" .
        moreover have "refused w (copied w icd c t) y = refused w t y"
          by (rule refused_cong) (simp_all add: False)
        then have "refused w ?t1 y = refused w t y" by simp
        ultimately show ?thesis using False ws by auto
      qed
    qed
    from Cons.IH[OF pre] have ih:
      "fst (copy_loop w icd cs ?t1) = fst (copy_loop w icd cs ?s1)"
      "written w icd cs ?t1 = written w icd cs ?s1"
      "\<forall>y\<in>written w icd cs ?s1.
         files (snd (copy_loop w icd cs ?t1)) y = files (snd (copy_loop w icd cs ?s1)) y \<and>
         modes (snd (copy_loop w icd cs ?t1)) y = modes (snd (copy_loop w icd cs ?s1)) y"
      by simp_all
    have "\<forall>y\<in>written w icd (c # cs) s.
         files (snd (copy_loop w icd cs ?t1)) y = files (snd (copy_loop w icd cs ?s1)) y \<and>
         modes (snd (copy_loop w icd cs ?t1)) y = modes (snd (copy_loop w icd cs ?s1)) y"
    proof
      fix y assume y: "y \<in> written w icd (c # cs) s"
      show "files (snd (copy_loop w icd cs ?t1)) y = files (snd (copy_loop w icd cs ?s1)) y \<and>
         modes (snd (copy_loop w icd cs ?t1)) y = modes (snd (copy_loop w icd cs ?s1)) y"
      proof (cases "y \<in> written w icd cs ?s1")
        case True
        with ih(3) show ?thesis by simp
      next
        case False
        with y ws have yx: "y = ?x" by simp
        from False ih(2) have "y \<notin> written w icd cs ?t1" by simp
        from copy_loop_frame[OF this] copy_loop_frame[OF False] show ?thesis
          unfolding yx by simp
      qed
    qed
    with ih(1,2) show ?thesis unfolding ss st ws wt by simp
  qed
qed

lemma copy_loop_cong:
  assumes "files s = files t" "modes s = modes t"
  shows "fst (copy_loop w icd cs t) = fst (copy_loop w icd cs s) \<and>
         files (snd (copy_loop w icd cs t)) = files (snd (copy_loop w icd cs s)) \<and>
         modes (snd (copy_loop w icd cs t)) = modes (snd (copy_loop w icd cs s))"
proof -
  have a: "\<forall>x\<in>copy_target w icd ` set cs.
             (files t x = files s x \<and> modes t x = modes s x) \<or>
             (x \<in> written w icd cs s \<and> \<not> refused w t x)"
    using assms by simp
  note r = copy_loop_again[OF a]
  have "files (snd (copy_loop w icd cs t)) x = files (snd (copy_loop w icd cs s)) x \<and>
        modes (snd (copy_loop w icd cs t)) x = modes (snd (copy_loop w icd cs s)) x" for x
  proof (cases "x \<in> written w icd cs s")
    case True
    with r show ?thesis by simp
  next
    case False
    with r have "x \<notin> written w icd cs t" by simp
    from copy_loop_frame[OF this] copy_loop_frame[OF False] assms show ?thesis by simp
  qed
  then have "files (snd (copy_loop w icd cs t)) = files (snd (copy_loop w icd cs s))"
    "modes (snd (copy_loop w icd cs t)) = modes (snd (copy_loop w icd cs s))"
    by (auto intro: ext)
  with r show ?thesis by simp
qed


section \<open>The extraction function\<close>

lemma extract_try_unfold:
  "extract_try w p icd s =
     (case run_extract w of
        Inl e \<Rightarrow> (Inl e, s)
      | Inr rc \<Rightarrow>
          if rc \<noteq> 0 then (Inr None, logger WARNING ''Failed to extract AppImage: '' s)
          else if find_icon_files w = []
          then (Inr None, logger WARNING (''No icons found in '' @ p) s)
          else
            (let sl = score_loop (find_icon_files w) (None, - 1)
                        (logger INFO (''Found icons in '' @ p) s)
             in case fst sl of
                  Inl e \<Rightarrow> (Inl e, snd sl)
                | Inr r \<Rightarrow>
                    (case fst r of
                       None \<Rightarrow> (Inr None, logger WARNING ''No suitable icon found'' (snd sl))
                     | Some best \<Rightarrow>
                         (let cl = copy_loop w icd (find_icon_files w)
                                     (logger INFO (''Selected best icon: ''
                                        @ joinpath (root best) (filename best)) (snd sl))
                          in case fst cl of
                               Inl e \<Rightarrow> (Inl e, snd cl)
                             | Inr u \<Rightarrow> (Inr (Some (path_stem (filename best))), snd cl)))))"
proof -
  let ?sl = "score_loop (find_icon_files w) (None, - 1) (logger INFO (''Found icons in '' @ p) s)"
  obtain r1 s1 where sl: "?sl = (r1, s1)" by (cases ?sl)
  show ?thesis
  proof (cases r1)
    case (Inl e)
    with sl show ?thesis unfolding extract_try_def Let_def by (simp split: sum.splits)
  next
    case (Inr r)
    obtain b bs where r: "r = (b, bs)" by (cases r)
    show ?thesis
    proof (cases b)
      case None
      with sl Inr r show ?thesis unfolding extract_try_def Let_def by (simp split: sum.splits)
    next
      case (Some best)
      let ?cl = "copy_loop w icd (find_icon_files w)
                   (logger INFO (''Selected best icon: '' @ joinpath (root best) (filename best)) s1)"
      obtain r2 s2 where cl: "?cl = (r2, s2)" by (cases ?cl)
      with sl Inr r Some show ?thesis
        unfolding extract_try_def Let_def by (simp split: sum.splits)
    qed
  qed
qed

lemma copies_ok_size_known: "copies_ok w icd cs s \<Longrightarrow> list_all size_known cs"
  by (induction cs arbitrary: s) (auto simp add: copy_ok_def)

lemma extract_try_ok:
  assumes run: "run_extract w = Inr 0" and ne: "find_icon_files w \<noteq> []"
    and ok: "copies_ok w icd (find_icon_files w) s"
  shows "\<exists>pre best post. find_icon_files w = pre @ best # post \<and>
      (\<forall>c\<in>set pre. score_of c < score_of best) \<and>
      (\<forall>c\<in>set post. score_of c \<le> score_of best) \<and>
      fst (extract_try w p icd s) = Inr (Some (path_stem (filename best))) \<and>
      files (snd (extract_try w p icd s))
        = fold (\<lambda>c m. m(copy_target w icd c \<mapsto> data c)) (find_icon_files w) (files s) \<and>
      modes (snd (extract_try w p icd s))
        = fold (\<lambda>c m. m(copy_target w icd c \<mapsto> st_mode c)) (find_icon_files w) (modes s)"
proof -
  let ?s1 = "logger INFO (''Found icons in '' @ p) s"
  let ?sl = "score_loop (find_icon_files w) (None, - 1) ?s1"
  from score_loop_selects[OF ne copies_ok_size_known[OF ok], of ?s1]
  obtain pre best post where sel: "find_icon_files w = pre @ best # post"
      "\<forall>c\<in>set pre. score_of c < score_of best"
      "\<forall>c\<in>set post. score_of c \<le> score_of best"
      "fst ?sl = Inr (Some best, score_of best)" by blast
  let ?s2 = "logger INFO (''Selected best icon: '' @ joinpath (root best) (filename best)) (snd ?sl)"
  have fs: "files ?s2 = files s" "modes ?s2 = modes s"
    using score_loop_fs[of "find_icon_files w" "(None, - 1)" ?s1] by simp_all
  have "copies_ok w icd (find_icon_files w) ?s2 = copies_ok w icd (find_icon_files w) s"
    by (rule copies_ok_cong) (fact fs)+
  with ok have ok2: "copies_ok w icd (find_icon_files w) ?s2" by simp
  from copy_loop_ok[OF ok2]
  have cl: "fst (copy_loop w icd (find_icon_files w) ?s2) = Inr ()"
    "files (snd (copy_loop w icd (find_icon_files w) ?s2))
       = fold (\<lambda>c m. m(copy_target w icd c \<mapsto> data c)) (find_icon_files w) (files ?s2)"
    "modes (snd (copy_loop w icd (find_icon_files w) ?s2))
       = fold (\<lambda>c m. m(copy_target w icd c \<mapsto> st_mode c)) (find_icon_files w) (modes ?s2)"
    by simp_all
  have "fst (extract_try w p icd s) = Inr (Some (path_stem (filename best)))"
    unfolding extract_try_unfold Let_def using run ne sel(4) cl(1) by simp
  moreover have "files (snd (extract_try w p icd s))
        = fold (\<lambda>c m. m(copy_target w icd c \<mapsto> data c)) (find_icon_files w) (files s)"
    unfolding extract_try_unfold Let_def using run ne sel(4) cl(1,2) fs(1) by simp
  moreover have "modes (snd (extract_try w p icd s))
        = fold (\<lambda>c m. m(copy_target w icd c \<mapsto> st_mode c)) (find_icon_files w) (modes s)"
    unfolding extract_try_unfold Let_def using run ne sel(4) cl(1,3) fs(2) by simp
  ultimately show ?thesis using sel(1,2,3) by blast
qed

lemma extract_try_copy_fails:
  assumes run: "run_extract w = Inr 0" and ne: "find_icon_files w \<noteq> []"
    and bad: "\<not> copies_ok w icd (find_icon_files w) s"
  shows "\<exists>e. fst (extract_try w p icd s) = Inl e"
proof -
  let ?s1 = "logger INFO (''Found icons in '' @ p) s"
  let ?sl = "score_loop (find_icon_files w) (None, - 1) ?s1"
  show ?thesis
  proof (cases "fst ?sl")
    case (Inl e)
    then show ?thesis unfolding extract_try_unfold Let_def using run ne by simp
  next
    case (Inr r)
    from score_loop_selects[OF ne score_loop_Inr_sizes[OF Inr], of ?s1] Inr
    obtain best where b: "fst ?sl = Inr (Some best, score_of best)" by auto
    let ?s2 = "logger INFO (''Selected best icon: '' @ joinpath (root best) (filename best)) (snd ?sl)"
    have fs: "files ?s2 = files s" "modes ?s2 = modes s"
      using score_loop_fs[of "find_icon_files w" "(None, - 1)" ?s1] by simp_all
    have "copies_ok w icd (find_icon_files w) ?s2 = copies_ok w icd (find_icon_files w) s"
      by (rule copies_ok_cong) (fact fs)+
    with bad have "\<not> copies_ok w icd (find_icon_files w) ?s2" by simp
    from copy_loop_fail[OF this] obtain e
      where "fst (copy_loop w icd (find_icon_files w) ?s2) = Inl e" by blast
    then show ?thesis unfolding extract_try_unfold Let_def using run ne b by simp
  qed
qed

lemma extract_try_run_fails:
  "run_extract w \<noteq> Inr 0 \<Longrightarrow>
   fst (extract_try w p icd s) = Inr None \<or> (\<exists>e. fst (extract_try w p icd s) = Inl e)"
  unfolding extract_try_unfold by (cases "run_extract w") auto

lemma extract_try_no_icons:
  "run_extract w = Inr 0 \<Longrightarrow> find_icon_files w = [] \<Longrightarrow>
   fst (extract_try w p icd s) = Inr None"
  unfolding extract_try_unfold by simp

lemma extract_try_frame:
  assumes "x \<notin> copy_target w icd ` set (find_icon_files w)"
  shows "files (snd (extract_try w p icd s)) x = files s x \<and>
         modes (snd (extract_try w p icd s)) x = modes s x"
proof -
  let ?s1 = "logger INFO (''Found icons in '' @ p) s"
  let ?sl = "score_loop (find_icon_files w) (None, - 1) ?s1"
  have a: "files (snd ?sl) = files s" "modes (snd ?sl) = modes s"
    using score_loop_fs[of "find_icon_files w" "(None, - 1)" ?s1] by simp_all
  have b: "files (snd (copy_loop w icd (find_icon_files w) (logger INFO m (snd ?sl)))) x = files s x \<and>
           modes (snd (copy_loop w icd (find_icon_files w) (logger INFO m (snd ?sl)))) x = modes s x" for m
  proof -
    from assms written_targets[of w icd "find_icon_files w" "logger INFO m (snd ?sl)"]
    have "x \<notin> written w icd (find_icon_files w) (logger INFO m (snd ?sl))" by blast
    from copy_loop_frame[OF this] a show ?thesis by simp
  qed
  show ?thesis
    unfolding extract_try_unfold Let_def using a b
    by (simp split: sum.splits option.splits)
qed

lemma extract_try_prefix: "prefix (logged s) (logged (snd (extract_try w p icd s)))"
proof -
  let ?s1 = "logger INFO (''Found icons in '' @ p) s"
  let ?sl = "score_loop (find_icon_files w) (None, - 1) ?s1"
  have a: "prefix (logged s) (logged (snd ?sl))"
    using score_loop_prefix[of ?s1 "find_icon_files w" "(None, - 1)"]
    by (auto elim: prefix_order.trans[rotated])
  have b: "prefix (logged s) (logged (snd (copy_loop w icd (find_icon_files w) (logger INFO m (snd ?sl)))))" for m
    using copy_loop_prefix[of "logger INFO m (snd ?sl)" w icd "find_icon_files w"] a
    by (auto elim: prefix_order.trans[rotated] simp: prefix_def)
  show ?thesis
    unfolding extract_try_unfold Let_def using a b
    by (auto split: sum.splits option.splits simp: prefix_def)
qed

lemma extract_unfold:
  "extract_and_cache_icons w p s =
     (case mkdir_icon_cache w of
        Some e \<Rightarrow> (Inl e, s)
      | None \<Rightarrow>
          (case mkdtemp w of
             Some e \<Rightarrow> (Inl e, s)
           | None \<Rightarrow>
               (let t = extract_try w p (icon_cache_dir_of w) (logger INFO (''Extracting '' @ p) s)
                in case fst t of
                     Inl e \<Rightarrow>
                       (Inr None,
                        logger ERROR
                          ((if e = TimeoutExpired then ''Timeout extracting ''
                            else ''Error extracting icons from '') @ p) (snd t))
                   | Inr r \<Rightarrow> (Inr r, snd t))))"
proof -
  let ?t = "extract_try w p (icon_cache_dir_of w) (logger INFO (''Extracting '' @ p) s)"
  obtain r1 s1 where t: "?t = (r1, s1)" by (cases ?t)
  then show ?thesis
    unfolding extract_and_cache_icons_def Let_def
    by (simp split: sum.splits option.splits)
qed

section \<open>The two copies of the core agree\<close>

lemma handler_score_body:
  "AppImageHandler_score_body self c n s = (icon_score c n, png_probe_log c s)"
  unfolding AppImageHandler_score_body_def icon_score_def png_probe_log_def Let_def
  by (simp split: sum.splits prod.splits)

lemma handler_score_loop:
  "AppImageHandler_score_loop self cs best s = score_loop cs best s"
proof (induction cs arbitrary: best s)
  case Nil
  show ?case by simp
next
  case (Cons c cs)
  obtain b bs where best: "best = (b, bs)" by (cases best)
  show ?case unfolding best
    by (cases "st_size c") (simp_all add: handler_score_body Let_def Cons.IH)
qed

lemma handler_cache_subdir:
  "AppImageHandler_cache_subdir self icd c n = cache_subdir icd c n"
  by (simp add: AppImageHandler_cache_subdir_def cache_subdir_def size_dir_def)

lemma handler_copy_loop:
  "AppImageHandler_copy_loop self w icd cs s = copy_loop w icd cs s"
proof (induction cs arbitrary: s)
  case Nil
  show ?case by simp
next
  case (Cons c cs)
  show ?case
    by (cases "st_size c")
       (simp_all add: handler_cache_subdir Let_def Cons.IH split: option.splits)
qed


lemma is_icon_file_eq:
  "is_icon_file = (\<lambda>f. list_ex (\<lambda>e. suffix e (lower (filename f)))
                          [''.png'', ''.svg'', ''.xpm'', ''.ico''])"
  by (rule ext) (simp only: is_icon_file_def)

lemma handler_extract:
  "AppImageHandler_extract_and_cache_icons self w p s = extract_and_cache_icons w p s"
  unfolding AppImageHandler_extract_and_cache_icons_def extract_and_cache_icons_def
    extract_try_def find_icon_files_def is_icon_file_eq icon_cache_dir_of_def
    handler_score_loop handler_copy_loop Let_def
  by (rule refl)


lemma handler_generate:
  "AppImageHandler_generate_desktop_file self w p s
     = generate_desktop_file w p (self_desktop_dir self) s"
proof -
  obtain r1 s1 where ex: "extract_and_cache_icons w p s = (r1, s1)"
    by (cases "extract_and_cache_icons w p s")
  show ?thesis
    unfolding AppImageHandler_generate_desktop_file_def generate_desktop_file_def
      generate_try_def handler_extract ex handler_detect_category_classify
      detect_category_classify Let_def
    by (cases r1)
       (simp_all add: desktop_content_def update_desktop_database_def
          split: option.splits sum.splits)
qed


section \<open>Results of the extraction\<close>

lemma extract_fst:
  assumes "mkdir_icon_cache w = None" "mkdtemp w = None"
  shows "fst (extract_and_cache_icons w p s) =
     (case fst (extract_try w p (icon_cache_dir_of w) (logger INFO (''Extracting '' @ p) s)) of
        Inl e \<Rightarrow> Inr None | Inr r \<Rightarrow> Inr r)"
  unfolding extract_unfold Let_def using assms by (simp split: sum.splits)

lemma extract_files:
  assumes "mkdir_icon_cache w = None" "mkdtemp w = None"
  shows "files (snd (extract_and_cache_icons w p s)) =
     files (snd (extract_try w p (icon_cache_dir_of w) (logger INFO (''Extracting '' @ p) s)))"
    and "modes (snd (extract_and_cache_icons w p s)) =
     modes (snd (extract_try w p (icon_cache_dir_of w) (logger INFO (''Extracting '' @ p) s)))"
  unfolding extract_unfold Let_def using assms by (simp_all split: sum.splits)

lemma extract_ok:
  assumes "mkdir_icon_cache w = None" "mkdtemp w = None"
    and run: "run_extract w = Inr 0" and ne: "find_icon_files w \<noteq> []"
    and ok: "copies_ok w (icon_cache_dir_of w) (find_icon_files w) s"
  shows "\<exists>pre best post. find_icon_files w = pre @ best # post \<and>
      (\<forall>c\<in>set pre. score_of c < score_of best) \<and>
      (\<forall>c\<in>set post. score_of c \<le> score_of best) \<and>
      fst (extract_and_cache_icons w p s) = Inr (Some (path_stem (filename best))) \<and>
      files (snd (extract_and_cache_icons w p s))
        = fold (\<lambda>c m. m(copy_target w (icon_cache_dir_of w) c \<mapsto> data c))
            (find_icon_files w) (files s) \<and>
      modes (snd (extract_and_cache_icons w p s))
        = fold (\<lambda>c m. m(copy_target w (icon_cache_dir_of w) c \<mapsto> st_mode c))
            (find_icon_files w) (modes s)"
proof -
  let ?s0 = "logger INFO (''Extracting '' @ p) s"
  let ?t = "extract_try w p (icon_cache_dir_of w) ?s0"
  have "copies_ok w (icon_cache_dir_of w) (find_icon_files w) ?s0
          = copies_ok w (icon_cache_dir_of w) (find_icon_files w) s"
    by (rule copies_ok_cong) simp_all
  with ok have ok0: "copies_ok w (icon_cache_dir_of w) (find_icon_files w) ?s0" by simp
  from extract_try_ok[OF run ne ok0, where p=p]
  obtain pre best post where h: "find_icon_files w = pre @ best # post"
      "\<forall>c\<in>set pre. score_of c < score_of best"
      "\<forall>c\<in>set post. score_of c \<le> score_of best"
      "fst ?t = Inr (Some (path_stem (filename best)))"
      "files (snd ?t) = fold (\<lambda>c m. m(copy_target w (icon_cache_dir_of w) c \<mapsto> data c))
            (find_icon_files w) (files ?s0)"
      "modes (snd ?t) = fold (\<lambda>c m. m(copy_target w (icon_cache_dir_of w) c \<mapsto> st_mode c))
            (find_icon_files w) (modes ?s0)"
    by blast
  have r: "fst (extract_and_cache_icons w p s) = Inr (Some (path_stem (filename best)))"
    unfolding extract_fst[OF assms(1,2)] h(4) by simp
  have f: "files (snd (extract_and_cache_icons w p s))
        = fold (\<lambda>c m. m(copy_target w (icon_cache_dir_of w) c \<mapsto> data c))
            (find_icon_files w) (files s)"
    unfolding extract_files[OF assms(1,2)] h(5) by simp
  have m: "modes (snd (extract_and_cache_icons w p s))
        = fold (\<lambda>c m. m(copy_target w (icon_cache_dir_of w) c \<mapsto> st_mode c))
            (find_icon_files w) (modes s)"
    unfolding extract_files[OF assms(1,2)] h(6) by simp
  from h(1,2,3) r f m show ?thesis by blast
qed

lemma extract_none_iff:
  assumes "mkdir_icon_cache w = None" "mkdtemp w = None"
  shows "fst (extract_and_cache_icons w p s) = Inr None \<longleftrightarrow>
     run_extract w \<noteq> Inr 0 \<or> find_icon_files w = [] \<or>
     \<not> copies_ok w (icon_cache_dir_of w) (find_icon_files w) s"
proof (cases "run_extract w = Inr 0 \<and> find_icon_files w \<noteq> [] \<and>
     copies_ok w (icon_cache_dir_of w) (find_icon_files w) s")
  case True
  with extract_ok[OF assms, where p=p and s=s] show ?thesis by auto
next
  case False
  let ?s0 = "logger INFO (''Extracting '' @ p) s"
  let ?t = "extract_try w p (icon_cache_dir_of w) ?s0"
  have cg: "copies_ok w (icon_cache_dir_of w) (find_icon_files w) ?s0
          = copies_ok w (icon_cache_dir_of w) (find_icon_files w) s"
    by (rule copies_ok_cong) simp_all
  have "fst ?t = Inr None \<or> (\<exists>e. fst ?t = Inl e)"
  proof (cases "run_extract w = Inr 0")
    case run: True
    show ?thesis
    proof (cases "find_icon_files w = []")
      case True
      with run show ?thesis by (simp add: extract_try_no_icons)
    next
      case ne: False
      with run False cg have "\<not> copies_ok w (icon_cache_dir_of w) (find_icon_files w) ?s0"
        by simp
      from extract_try_copy_fails[OF run ne this] show ?thesis by blast
    qed
  next
    case False
    then show ?thesis by (rule extract_try_run_fails)
  qed
  then have "fst (extract_and_cache_icons w p s) = Inr None"
    unfolding extract_fst[OF assms] by auto
  with False show ?thesis by blast
qed

lemma fold_upd_last:
  "c \<in> set cs \<Longrightarrow>
   \<exists>c'\<in>set cs. k c' = k c \<and> fold (\<lambda>c m. m(k c \<mapsto> v c)) cs m0 (k c) = Some (v c')"
proof (induction cs rule: rev_induct)
  case Nil
  then show ?case by simp
next
  case (snoc x xs)
  show ?case
  proof (cases "k x = k c")
    case True
    then show ?thesis by auto
  next
    case False
    with snoc.prems have "c \<in> set xs" by auto
    from snoc.IH[OF this] False show ?thesis by auto
  qed
qed

text \<open>
  Copies succeed from a state when the environment lets every candidate through, the
  candidates carry owner write permission, and no destination is refused at the start.
\<close>

lemma copies_ok_fresh:
  assumes "list_all (copy_ok w icd) cs"
    and "is_root w \<or> list_all (\<lambda>c. owner_writable (st_mode c)) cs"
    and "\<forall>c\<in>set cs. \<not> refused w s (copy_target w icd c)"
  shows "copies_ok w icd cs s"
  using assms
proof (induction cs arbitrary: s)
  case Nil
  show ?case by simp
next
  case (Cons c cs)
  have a: "\<forall>c'\<in>set cs. \<not> refused w (copied w icd c s) (copy_target w icd c')"
  proof
    fix c' assume c': "c' \<in> set cs"
    show "\<not> refused w (copied w icd c s) (copy_target w icd c')"
    proof (cases "copy_target w icd c' = copy_target w icd c")
      case True
      from Cons.prems(2) show ?thesis
        by (auto simp add: True refused_def read_only_def)
    next
      case False
      have "refused w (copied w icd c s) (copy_target w icd c')
              = refused w s (copy_target w icd c')"
        by (rule refused_cong) (simp_all add: False)
      with Cons.prems(3) c' show ?thesis by simp
    qed
  qed
  from Cons.prems(2)
  have b: "is_root w \<or> list_all (\<lambda>c. owner_writable (st_mode c)) cs" by auto
  from Cons.prems(1) have c: "list_all (copy_ok w icd) cs" by simp
  from Cons.IH[OF c b a] Cons.prems(1,3) show ?case by simp
qed

lemmas string_eval = lower_def lower_char_def char_of_def bit_Suc_0_iff suffix_to_prefix
  rfind_def path_suffix_def path_stem_def path_name_def joinpath_def Let_def

lemma sample_world_ok:
  "mkdir_icon_cache sample_world = None" "mkdtemp sample_world = None"
  "run_extract sample_world = Inr 0"
  by (simp_all add: sample_world_def)

lemma sample_icons:
  "find_icon_files sample_world
     = [sample_files ! 0, sample_files ! 2, sample_files ! 3, sample_files ! 4]"
  by (simp add: find_icon_files_def sample_world_def sample_files_def is_icon_file_def
      string_eval)

lemma sample_icons_nonempty: "find_icon_files sample_world \<noteq> []"
  by (simp add: sample_icons)

lemma owner_writable_420: "owner_writable 420"
  by (simp add: owner_writable_def)

lemma empty_state_not_refused: "files s = Map.empty \<Longrightarrow> \<not> refused w s x"
  by (simp add: refused_def read_only_def)

lemma sample_copies_ok:
  assumes "files s = Map.empty"
  shows "copies_ok sample_world (icon_cache_dir_of sample_world) (find_icon_files sample_world) s"
proof (rule copies_ok_fresh)
  have "mkdir_subdir sample_world d = None" "copy2 sample_world a b = None" for d a b
    by (simp_all add: sample_world_def)
  then show "list_all (copy_ok sample_world (icon_cache_dir_of sample_world))
               (find_icon_files sample_world)"
    by (simp add: sample_icons copy_ok_def size_known_def sample_files_def)
  show "is_root sample_world \<or>
        list_all (\<lambda>c. owner_writable (st_mode c)) (find_icon_files sample_world)"
    by (simp add: sample_icons sample_files_def owner_writable_420)
  from assms show "\<forall>c\<in>set (find_icon_files sample_world).
        \<not> refused sample_world s (copy_target sample_world (icon_cache_dir_of sample_world) c)"
    by (simp add: empty_state_not_refused)
qed

lemma format_of_svg_iff:
  "format_of c = Some SVG \<longleftrightarrow> lower (path_suffix (filename c)) = ''.svg''"
  by (simp add: format_of_def Let_def)

lemma cache_dest_svg:
  "format_of c = Some SVG \<Longrightarrow>
   cache_dest icd c = joinpath (joinpath icd ''scalable/apps'') (path_stem (filename c))"
  by (simp add: format_of_svg_iff cache_dest_def subdir_of_def cache_subdir_def)

lemma cache_dest_bitmap:
  "format_of c \<noteq> Some SVG \<Longrightarrow>
   cache_dest icd c
     = joinpath (joinpath icd (size_dir (byte_size c) @ ''/apps'')) (path_stem (filename c))"
  by (simp add: format_of_svg_iff cache_dest_def subdir_of_def cache_subdir_def)

text \<open>The cache subdirectory is a path of its own, and the stem is joined below it.\<close>

lemma joinpath_apps:
  assumes "suffix ''/apps'' x"
  shows "joinpath icd x \<noteq> ''.'' \<and> joinpath icd x \<noteq> [] \<and> last (joinpath icd x) \<noteq> CHR ''/''"
proof -
  from assms obtain y where x: "x = y @ ''/apps''" by (auto simp: suffix_def)
  show ?thesis unfolding x joinpath_def by auto
qed

lemma subdir_of_shape:
  "subdir_of icd c \<noteq> ''.'' \<and> subdir_of icd c \<noteq> [] \<and> last (subdir_of icd c) \<noteq> CHR ''/''"
proof (cases "lower (path_suffix (filename c)) = ''.svg''")
  case True
  have "suffix ''/apps'' ''scalable/apps''" by (simp add: suffix_def)
  from joinpath_apps[OF this, of icd] True show ?thesis
    by (simp add: subdir_of_def cache_subdir_def)
next
  case False
  have "suffix ''/apps'' (size_dir (byte_size c) @ ''/apps'')" by (simp add: suffix_def)
  from joinpath_apps[OF this, of icd] False show ?thesis
    by (simp add: subdir_of_def cache_subdir_def)
qed

lemma dest_is_dir_iff:
  "dest_is_dir w icd c \<longleftrightarrow>
     path_stem (filename c) = ''.'' \<or> path_stem (filename c) = ''..'' \<or>
     isdir w (cache_dest icd c)"
proof -
  let ?d = "subdir_of icd c" and ?n = "path_stem (filename c)"
  from subdir_of_shape[of icd c]
  have j: "joinpath ?d ?n = (if ?n = ''.'' then ?d else ?d @ ''/'' @ ?n)"
    by (simp add: joinpath_def)
  have a: "joinpath ?d ?n = ?d \<longleftrightarrow> ?n = ''.''" unfolding j by simp
  have b: "joinpath ?d ?n = ?d @ ''/..'' \<longleftrightarrow> ?n = ''..''" unfolding j by auto
  show ?thesis
    unfolding dest_is_dir_def copy2_dst_isdir_def cache_dest_def a b by (rule refl)
qed

lemma extract_by_score:
  assumes "mkdir_icon_cache w = None" "mkdtemp w = None"
    and run: "run_extract w = Inr 0" and ne: "find_icon_files w \<noteq> []"
    and ok: "copies_ok w (icon_cache_dir_of w) (find_icon_files w) s"
    and sl: "fst (score_loop (find_icon_files w) (None, - 1) empty_state) = Inr (Some best, sc)"
  shows "fst (extract_and_cache_icons w p s) = Inr (Some (path_stem (filename best)))"
proof -
  let ?icd = "icon_cache_dir_of w"
  let ?s1 = "logger INFO (''Found icons in '' @ p) (logger INFO (''Extracting '' @ p) s)"
  let ?sl = "score_loop (find_icon_files w) (None, - 1) ?s1"
  let ?s2 = "logger INFO (''Selected best icon: '' @ joinpath (root best) (filename best)) (snd ?sl)"
  have sl': "fst ?sl = Inr (Some best, sc)"
    using sl score_loop_result_indep[of "find_icon_files w" "(None, - 1)" ?s1 empty_state]
    by simp
  have fs: "files ?s2 = files s" "modes ?s2 = modes s"
    using score_loop_fs[of "find_icon_files w" "(None, - 1)" ?s1] by simp_all
  have "copies_ok w ?icd (find_icon_files w) ?s2 = copies_ok w ?icd (find_icon_files w) s"
    by (rule copies_ok_cong) (fact fs)+
  with ok have "copies_ok w ?icd (find_icon_files w) ?s2" by simp
  from copy_loop_ok[OF this] have cl: "fst (copy_loop w ?icd (find_icon_files w) ?s2) = Inr ()"
    by simp
  show ?thesis
    unfolding extract_fst[OF assms(1,2)] extract_try_unfold Let_def
    using run ne sl' cl by simp
qed

lemma walk_world_ok:
  "mkdir_icon_cache (sample_world\<lparr>walk := fs\<rparr>) = None"
  "mkdtemp (sample_world\<lparr>walk := fs\<rparr>) = None"
  "run_extract (sample_world\<lparr>walk := fs\<rparr>) = Inr 0"
  by (simp_all add: sample_world_def)

lemma walk_copies_ok:
  assumes "list_all size_known cs" and "list_all (\<lambda>c. owner_writable (st_mode c)) cs"
    and "files s = Map.empty"
  shows "copies_ok (sample_world\<lparr>walk := fs\<rparr>) icd cs s"
proof (rule copies_ok_fresh)
  have "copy_ok (sample_world\<lparr>walk := fs\<rparr>) icd c = size_known c" for c
    by (simp add: copy_ok_def sample_world_def)
  with assms(1) show "list_all (copy_ok (sample_world\<lparr>walk := fs\<rparr>) icd) cs"
    by (simp add: list_all_iff)
  from assms(2) show "is_root (sample_world\<lparr>walk := fs\<rparr>) \<or>
      list_all (\<lambda>c. owner_writable (st_mode c)) cs" by simp
  from assms(3) show "\<forall>c\<in>set cs. \<not> refused (sample_world\<lparr>walk := fs\<rparr>) s
      (copy_target (sample_world\<lparr>walk := fs\<rparr>) icd c)"
    by (simp add: empty_state_not_refused)
qed

lemma dotfile_icons: "find_icon_files dotfile_world = [dot_svg, a_ico]"
  by (simp add: find_icon_files_def dotfile_world_def dot_svg_def a_ico_def is_icon_file_def
      string_eval)

lemma dotfile_copies_ok:
  "copies_ok dotfile_world (icon_cache_dir_of dotfile_world) (find_icon_files dotfile_world)
     empty_state"
  unfolding dotfile_icons unfolding dotfile_world_def
  by (rule walk_copies_ok)
     (simp_all add: size_known_def dot_svg_def a_ico_def owner_writable_420 empty_state_def)

text \<open>
  C1 does not hold as stated. The candidates are the files whose lower-cased name ends in
  one of the four extensions, but the base score is read off the \<open>pathlib\<close> suffix, and
  a name that is nothing but the extension has no suffix. An empty file named \<open>.svg\<close>
  scores 0, not 1000, and loses to an empty \<open>a.ico\<close> found after it, which scores 50;
  a file named \<open>.png\<close> of 20000 bytes without readable dimensions scores 19, not 519.
\<close>

theorem extension_only_name_counterexample:
  "is_icon_file dot_svg \<and> st_size dot_svg = Inr 0 \<and> icon_score dot_svg 0 = 0 \<and>
   is_icon_file a_ico \<and> st_size a_ico = Inr 0 \<and> icon_score a_ico 0 = 50 \<and>
   mkdir_icon_cache dotfile_world = None \<and> mkdtemp dotfile_world = None \<and>
   run_extract dotfile_world = Inr 0 \<and> find_icon_files dotfile_world = [dot_svg, a_ico] \<and>
   fst (extract_and_cache_icons dotfile_world ''/home/u/AppImages/Foo.AppImage'' empty_state)
     = Inr (Some ''a'') \<and>
   is_icon_file big_dot_png \<and> st_size big_dot_png = Inr 20000 \<and>
   image_size big_dot_png = Inl OtherException \<and> icon_score big_dot_png 20000 = 19"
proof -
  have a: "is_icon_file dot_svg" "st_size dot_svg = Inr 0" "icon_score dot_svg 0 = 0"
    by (simp_all add: dot_svg_def is_icon_file_def icon_score_def string_eval)
  have b: "is_icon_file a_ico" "st_size a_ico = Inr 0" "icon_score a_ico 0 = 50"
    by (simp_all add: a_ico_def is_icon_file_def icon_score_def string_eval)
  have c: "is_icon_file big_dot_png" "st_size big_dot_png = Inr 20000"
    "image_size big_dot_png = Inl OtherException" "icon_score big_dot_png 20000 = 19"
    by (simp_all add: big_dot_png_def is_icon_file_def icon_score_def string_eval)
  have w: "mkdir_icon_cache dotfile_world = None" "mkdtemp dotfile_world = None"
    "run_extract dotfile_world = Inr 0"
    by (simp_all add: dotfile_world_def sample_world_def)
  have ne: "find_icon_files dotfile_world \<noteq> []" by (simp add: dotfile_icons)
  have sl: "fst (score_loop (find_icon_files dotfile_world) (None, - 1) empty_state)
      = Inr (Some a_ico, 50)"
    unfolding dotfile_icons by (simp add: a(2,3) b(2,3) Let_def)
  have "path_stem (filename a_ico) = ''a''" by (simp add: a_ico_def string_eval)
  with extract_by_score[OF w ne dotfile_copies_ok sl]
  have "fst (extract_and_cache_icons dotfile_world ''/home/u/AppImages/Foo.AppImage''
      empty_state) = Inr (Some ''a'')" by simp
  with a b c w dotfile_icons show ?thesis by simp
qed

text \<open>
  C1, amended. When the cache root and the scratch directory could be created, the bundle
  extracted itself, at least one icon file was found and every candidate could be read and
  copied, the icon returned is the stem of the first candidate, in traversal order, of the
  highest score: every earlier candidate scores strictly less, every later one at most as
  much. The score of a candidate is the base of its format (svg 1000, png 500, xpm 100,
  ico 50, and 0 for a candidate whose name has no suffix) plus \<open>min (size div 1024) 100\<close>
  plus, for PNG with known dimensions, \<open>min (width * height div 1000) 200\<close>; a candidate
  with suffix \<open>.png\<close> of 20000 bytes whose dimensions cannot be read scores 519.
\<close>

theorem best_icon_is_first_highest_score:
  assumes "mkdir_icon_cache w = None" and "mkdtemp w = None" and "run_extract w = Inr 0"
    and "find_icon_files w \<noteq> []"
    and "copies_ok w (icon_cache_dir_of w) (find_icon_files w) s"
  shows "(\<exists>pre best post. find_icon_files w = pre @ best # post \<and>
            (\<forall>c\<in>set pre. score_of c < score_of best) \<and>
            (\<forall>c\<in>set post. score_of c \<le> score_of best) \<and>
            fst (extract_and_cache_icons w appimage_path s)
              = Inr (Some (path_stem (filename best))) \<and>
            fst (AppImageHandler_extract_and_cache_icons self w appimage_path s)
              = Inr (Some (path_stem (filename best)))) \<and>
         (\<forall>c. score_of c = candidate_score (format_of c) (byte_size c) (pixel_dims c)) \<and>
         (\<forall>c e. format_of c = Some PNG \<and> st_size c = Inr 20000 \<and> image_size c = Inl e \<longrightarrow>
            score_of c = 519) \<and>
         (\<forall>c. format_of c = None \<longleftrightarrow>
            lower (path_suffix (filename c)) \<notin> {''.svg'', ''.png'', ''.xpm'', ''.ico''})"
proof (intro conjI allI impI)
  from extract_ok[OF assms, where p=appimage_path]
  show "\<exists>pre best post. find_icon_files w = pre @ best # post \<and>
            (\<forall>c\<in>set pre. score_of c < score_of best) \<and>
            (\<forall>c\<in>set post. score_of c \<le> score_of best) \<and>
            fst (extract_and_cache_icons w appimage_path s)
              = Inr (Some (path_stem (filename best))) \<and>
            fst (AppImageHandler_extract_and_cache_icons self w appimage_path s)
              = Inr (Some (path_stem (filename best)))"
    unfolding handler_extract by blast
next
  fix c
  show "score_of c = candidate_score (format_of c) (byte_size c) (pixel_dims c)"
    unfolding score_of_def by (rule icon_score_candidate)
next
  fix c e
  assume a: "format_of c = Some PNG \<and> st_size c = Inr 20000 \<and> image_size c = Inl e"
  then have "score_of c = candidate_score (Some PNG) 20000 None"
    by (simp add: score_of_def icon_score_candidate byte_size_def pixel_dims_def)
  then show "score_of c = 519" by (simp add: candidate_score_def)
next
  fix c
  show "format_of c = None \<longleftrightarrow>
          lower (path_suffix (filename c)) \<notin> {''.svg'', ''.png'', ''.xpm'', ''.ico''}"
    by (simp add: format_of_def Let_def)
qed

lemma sample_score_loop:
  "fst (score_loop (find_icon_files sample_world) (None, - 1) s)
     = Inr (Some (sample_files ! 2), 1002)"
  by (simp add: sample_icons sample_files_def icon_score_def string_eval)

lemma sample_scores:
  "map score_of (find_icon_files sample_world) = [519, 1002, 1002, 200]"
  by (simp add: sample_icons sample_files_def score_of_def byte_size_def icon_score_def string_eval)

lemma sample_extract:
  assumes "files s = Map.empty"
  shows "fst (extract_and_cache_icons sample_world p s) = Inr (Some ''app'')"
proof -
  have "path_stem (filename (sample_files ! 2)) = ''app''"
    by (simp add: sample_files_def string_eval)
  with extract_by_score[OF sample_world_ok sample_icons_nonempty sample_copies_ok[OF assms]
         sample_score_loop]
  show ?thesis by simp
qed

lemma empty_state_files: "files empty_state = Map.empty"
  by (simp add: empty_state_def)

theorem best_icon_is_first_highest_score_witness:
  "mkdir_icon_cache sample_world = None \<and> mkdtemp sample_world = None \<and>
   run_extract sample_world = Inr 0 \<and> find_icon_files sample_world \<noteq> [] \<and>
   copies_ok sample_world (icon_cache_dir_of sample_world)
     (find_icon_files sample_world) empty_state \<and>
   (\<exists>pre best post. find_icon_files sample_world = pre @ best # post \<and>
      (\<forall>c\<in>set pre. score_of c < score_of best) \<and>
      (\<forall>c\<in>set post. score_of c \<le> score_of best) \<and>
      fst (extract_and_cache_icons sample_world ''/home/u/AppImages/Foo.AppImage'' empty_state)
        = Inr (Some (path_stem (filename best)))) \<and>
   map filename (find_icon_files sample_world)
     = [''app.PNG'', ''app.svg'', ''logo.svg'', ''app.xpm''] \<and>
   map score_of (find_icon_files sample_world) = [519, 1002, 1002, 200] \<and>
   fst (extract_and_cache_icons sample_world ''/home/u/AppImages/Foo.AppImage'' empty_state)
     = Inr (Some ''app'')"
proof -
  note ok = sample_copies_ok[OF empty_state_files]
  have names: "map filename (find_icon_files sample_world)
     = [''app.PNG'', ''app.svg'', ''logo.svg'', ''app.xpm'']"
    by (simp add: sample_icons sample_files_def)
  from best_icon_is_first_highest_score
         [OF sample_world_ok sample_icons_nonempty ok,
          where appimage_path="''/home/u/AppImages/Foo.AppImage''"]
  have "\<exists>pre best post. find_icon_files sample_world = pre @ best # post \<and>
      (\<forall>c\<in>set pre. score_of c < score_of best) \<and>
      (\<forall>c\<in>set post. score_of c \<le> score_of best) \<and>
      fst (extract_and_cache_icons sample_world ''/home/u/AppImages/Foo.AppImage'' empty_state)
        = Inr (Some (path_stem (filename best)))"
    by blast
  with sample_world_ok sample_icons_nonempty ok names sample_scores
    sample_extract[OF empty_state_files, of "''/home/u/AppImages/Foo.AppImage''"]
  show ?thesis by blast
qed

lemma dotdot_icons: "find_icon_files dotdot_world = [dot_svg, dotdot_png]"
  by (simp add: find_icon_files_def dotdot_world_def dot_svg_def dotdot_png_def
      is_icon_file_def string_eval)

lemma dotdot_copies_ok:
  "copies_ok dotdot_world (icon_cache_dir_of dotdot_world) (find_icon_files dotdot_world)
     empty_state"
  unfolding dotdot_icons unfolding dotdot_world_def
  by (rule walk_copies_ok)
     (simp_all add: size_known_def dot_svg_def dotdot_png_def owner_writable_420
        empty_state_def)

lemma dotdot_targets:
  "copy_target dotdot_world ''/home/u/.local/share/icons/hicolor'' dot_svg
     = ''/home/u/.local/share/icons/hicolor/16x16/apps/.svg''"
  "copy_target dotdot_world ''/home/u/.local/share/icons/hicolor'' dotdot_png
     = ''/home/u/.local/share/icons/hicolor/16x16/apps/..png''"
proof -
  have isd: "isdir dotdot_world x = False" for x
    by (simp add: dotdot_world_def sample_world_def)
  show "copy_target dotdot_world ''/home/u/.local/share/icons/hicolor'' dot_svg
     = ''/home/u/.local/share/icons/hicolor/16x16/apps/.svg''"
    by (simp add: copy_target_def dest_is_dir_def copy2_dst_isdir_def cache_dest_def
        subdir_of_def cache_subdir_def size_dir_def byte_size_def os_path_join_def isd
        dot_svg_def string_eval)
  show "copy_target dotdot_world ''/home/u/.local/share/icons/hicolor'' dotdot_png
     = ''/home/u/.local/share/icons/hicolor/16x16/apps/..png''"
    by (simp add: copy_target_def dest_is_dir_def copy2_dst_isdir_def cache_dest_def
        subdir_of_def cache_subdir_def size_dir_def byte_size_def os_path_join_def isd
        dotdot_png_def string_eval)
qed

text \<open>
  C4 does not hold as stated. The destination is named by the \<open>pathlib\<close> stem, and the
  subdirectory is chosen by the \<open>pathlib\<close> suffix. A file named \<open>.svg\<close> has no
  suffix and is its own stem: it lands in the size bucket, as \<open>16x16/apps/.svg\<close>, and
  nothing is written under \<open>scalable/apps\<close>. A file named \<open>..png\<close> has the stem
  \<open>.\<close>, which joined to the subdirectory is the subdirectory itself, so the copy goes
  into that directory under the full name: \<open>16x16/apps/..png\<close>, extension included.
\<close>

theorem destination_counterexample:
  "mkdir_icon_cache dotdot_world = None \<and> mkdtemp dotdot_world = None \<and>
   run_extract dotdot_world = Inr 0 \<and> find_icon_files dotdot_world = [dot_svg, dotdot_png] \<and>
   filename dot_svg = ''.svg'' \<and> filename dotdot_png = ''..png'' \<and>
   path_stem (filename dotdot_png) = ''.'' \<and>
   files (snd (extract_and_cache_icons dotdot_world ''/home/u/AppImages/Foo.AppImage''
                 empty_state))
     = [''/home/u/.local/share/icons/hicolor/16x16/apps/.svg'' \<mapsto> ''svg'',
        ''/home/u/.local/share/icons/hicolor/16x16/apps/..png'' \<mapsto> ''dots'']"
proof -
  have w: "mkdir_icon_cache dotdot_world = None" "mkdtemp dotdot_world = None"
    "run_extract dotdot_world = Inr 0"
    by (simp_all add: dotdot_world_def sample_world_def)
  have ne: "find_icon_files dotdot_world \<noteq> []" by (simp add: dotdot_icons)
  have n: "filename dot_svg = ''.svg''" "filename dotdot_png = ''..png''"
    "path_stem (filename dotdot_png) = ''.''"
    by (simp_all add: dot_svg_def dotdot_png_def string_eval)
  have home: "icon_cache_dir_of dotdot_world = ''/home/u/.local/share/icons/hicolor''"
    by (simp add: icon_cache_dir_of_def dotdot_world_def sample_world_def joinpath_def)
  from extract_ok[OF w ne dotdot_copies_ok, where p="''/home/u/AppImages/Foo.AppImage''"]
  have "files (snd (extract_and_cache_icons dotdot_world ''/home/u/AppImages/Foo.AppImage''
                 empty_state))
     = fold (\<lambda>c m. m(copy_target dotdot_world (icon_cache_dir_of dotdot_world) c \<mapsto> data c))
         (find_icon_files dotdot_world) (files empty_state)" by blast
  also have "\<dots> = [''/home/u/.local/share/icons/hicolor/16x16/apps/.svg'' \<mapsto> ''svg'',
        ''/home/u/.local/share/icons/hicolor/16x16/apps/..png'' \<mapsto> ''dots'']"
    unfolding home dotdot_icons
    by (simp add: dotdot_targets empty_state_def) (simp add: dot_svg_def dotdot_png_def)
  finally show ?thesis using w dotdot_icons n by simp
qed

text \<open>
  C4, amended. Under the conditions of C1 every candidate, not only the winner, is copied
  into the cache, in traversal order. The copy loop names for a candidate the path
  \<open><subdirectory>/<stem>\<close>, where the subdirectory is \<open>scalable/apps\<close> for the suffix
  \<open>.svg\<close> and \<open><bucket>/apps\<close> otherwise, with the bucket chosen by byte size
  (\<open>16x16\<close> below 5000, \<open>32x32\<close> below 15000, \<open>48x48\<close> below 50000, \<open>64x64\<close>
  below 100000, else \<open>128x128\<close>). The copy lands on that path unless it is a
  directory, which it is when the stem is \<open>.\<close> or \<open>..\<close> or when the environment
  says so; then it lands in that directory under the full file name. Afterwards the
  landing path of every candidate holds the bytes of a candidate landing there (the last
  one copied there).
\<close>

theorem every_candidate_is_cached:
  assumes "mkdir_icon_cache w = None" and "mkdtemp w = None" and "run_extract w = Inr 0"
    and "find_icon_files w \<noteq> []"
    and "copies_ok w (icon_cache_dir_of w) (find_icon_files w) s"
  shows "files (snd (extract_and_cache_icons w p s))
           = fold (\<lambda>c m. m(copy_target w (icon_cache_dir_of w) c \<mapsto> data c))
               (find_icon_files w) (files s) \<and>
         files (snd (AppImageHandler_extract_and_cache_icons self w p s))
           = files (snd (extract_and_cache_icons w p s)) \<and>
         (\<forall>c\<in>set (find_icon_files w). \<exists>c'\<in>set (find_icon_files w).
            copy_target w (icon_cache_dir_of w) c' = copy_target w (icon_cache_dir_of w) c \<and>
            files (snd (extract_and_cache_icons w p s)) (copy_target w (icon_cache_dir_of w) c)
              = Some (data c')) \<and>
         (\<forall>c. copy_target w (icon_cache_dir_of w) c
                = (if path_stem (filename c) = ''.'' \<or> path_stem (filename c) = ''..'' \<or>
                      isdir w (cache_dest (icon_cache_dir_of w) c)
                   then os_path_join (cache_dest (icon_cache_dir_of w) c) (filename c)
                   else cache_dest (icon_cache_dir_of w) c)) \<and>
         (\<forall>c. format_of c = Some SVG \<longrightarrow>
            cache_dest (icon_cache_dir_of w) c
              = joinpath (joinpath (icon_cache_dir_of w) ''scalable/apps'')
                  (path_stem (filename c))) \<and>
         (\<forall>c. format_of c \<noteq> Some SVG \<longrightarrow>
            cache_dest (icon_cache_dir_of w) c
              = joinpath (joinpath (icon_cache_dir_of w) (size_dir (byte_size c) @ ''/apps''))
                  (path_stem (filename c))) \<and>
         (\<forall>n. size_dir n =
            (if n < 5000 then ''16x16'' else if n < 15000 then ''32x32''
             else if n < 50000 then ''48x48'' else if n < 100000 then ''64x64''
             else ''128x128''))"
proof -
  let ?icd = "icon_cache_dir_of w"
  from extract_ok[OF assms, where p=p]
  have f: "files (snd (extract_and_cache_icons w p s))
           = fold (\<lambda>c m. m(copy_target w ?icd c \<mapsto> data c)) (find_icon_files w) (files s)"
    by blast
  have each: "\<forall>c\<in>set (find_icon_files w). \<exists>c'\<in>set (find_icon_files w).
            copy_target w ?icd c' = copy_target w ?icd c \<and>
            files (snd (extract_and_cache_icons w p s)) (copy_target w ?icd c)
              = Some (data c')"
    unfolding f
    using fold_upd_last[of _ "find_icon_files w" "copy_target w ?icd" data "files s"]
    by blast
  have h: "files (snd (AppImageHandler_extract_and_cache_icons self w p s))
           = files (snd (extract_and_cache_icons w p s))" by (simp only: handler_extract)
  have t: "copy_target w ?icd c
                = (if path_stem (filename c) = ''.'' \<or> path_stem (filename c) = ''..'' \<or>
                      isdir w (cache_dest ?icd c)
                   then os_path_join (cache_dest ?icd c) (filename c)
                   else cache_dest ?icd c)" for c
    unfolding copy_target_def dest_is_dir_iff by (rule refl)
  have b: "\<forall>n. size_dir n =
            (if n < 5000 then ''16x16'' else if n < 15000 then ''32x32''
             else if n < 50000 then ''48x48'' else if n < 100000 then ''64x64''
             else ''128x128'')" by (simp only: size_dir_def) simp
  show ?thesis
    by (intro conjI allI impI)
       (fact f, fact h, fact each, rule t, erule cache_dest_svg, erule cache_dest_bitmap,
        rule b[rule_format])
qed

lemma sample_targets:
  "map (copy_target sample_world ''/home/u/.local/share/icons/hicolor'')
     (find_icon_files sample_world)
     = [''/home/u/.local/share/icons/hicolor/48x48/apps/app'',
        ''/home/u/.local/share/icons/hicolor/scalable/apps/app'',
        ''/home/u/.local/share/icons/hicolor/scalable/apps/logo'',
        ''/home/u/.local/share/icons/hicolor/128x128/apps/app'']"
proof -
  have isd: "isdir sample_world x = False" for x by (simp add: sample_world_def)
  show ?thesis
    unfolding sample_icons
    by (simp add: sample_files_def copy_target_def dest_is_dir_def copy2_dst_isdir_def
        cache_dest_def subdir_of_def cache_subdir_def size_dir_def byte_size_def isd
        string_eval)
qed

lemma sample_home: "icon_cache_dir_of sample_world = ''/home/u/.local/share/icons/hicolor''"
  by (simp add: icon_cache_dir_of_def sample_world_def joinpath_def)

theorem every_candidate_is_cached_witness:
  "mkdir_icon_cache sample_world = None \<and> mkdtemp sample_world = None \<and>
   run_extract sample_world = Inr 0 \<and> find_icon_files sample_world \<noteq> [] \<and>
   copies_ok sample_world (icon_cache_dir_of sample_world)
     (find_icon_files sample_world) empty_state \<and>
   files (snd (extract_and_cache_icons sample_world ''/home/u/AppImages/Foo.AppImage''
                 empty_state))
     ''/home/u/.local/share/icons/hicolor/scalable/apps/app'' = Some ''svg-first'' \<and>
   files (snd (extract_and_cache_icons sample_world ''/home/u/AppImages/Foo.AppImage''
                 empty_state))
     ''/home/u/.local/share/icons/hicolor/48x48/apps/app'' = Some ''png-small'' \<and>
   files (snd (extract_and_cache_icons sample_world ''/home/u/AppImages/Foo.AppImage''
                 empty_state))
     ''/home/u/.local/share/icons/hicolor/128x128/apps/app'' = Some ''xpm''"
proof -
  note ok = sample_copies_ok[OF empty_state_files]
  from every_candidate_is_cached
         [OF sample_world_ok sample_icons_nonempty ok,
          where p="''/home/u/AppImages/Foo.AppImage''"]
  have f: "files (snd (extract_and_cache_icons sample_world ''/home/u/AppImages/Foo.AppImage''
                 empty_state))
     = fold (\<lambda>c m. m(copy_target sample_world (icon_cache_dir_of sample_world) c \<mapsto> data c))
               (find_icon_files sample_world) (files empty_state)"
    by blast
  have "files (snd (extract_and_cache_icons sample_world ''/home/u/AppImages/Foo.AppImage''
                 empty_state))
     ''/home/u/.local/share/icons/hicolor/scalable/apps/app'' = Some ''svg-first'' \<and>
   files (snd (extract_and_cache_icons sample_world ''/home/u/AppImages/Foo.AppImage''
                 empty_state))
     ''/home/u/.local/share/icons/hicolor/48x48/apps/app'' = Some ''png-small'' \<and>
   files (snd (extract_and_cache_icons sample_world ''/home/u/AppImages/Foo.AppImage''
                 empty_state))
     ''/home/u/.local/share/icons/hicolor/128x128/apps/app'' = Some ''xpm''"
    unfolding f sample_home using sample_targets
    by (simp add: sample_icons sample_files_def empty_state_def)
  with sample_world_ok sample_icons_nonempty ok show ?thesis by blast
qed

section \<open>When no icon is returned\<close>

text \<open>
  C10 does not hold as stated. A file named exactly \<open>.png\<close> passes the
  \<open>endswith\<close> filter but has no \<open>pathlib\<close> suffix, so its base score is 0 and
  an empty one scores 0, below 50. And a candidate that cannot be read (a dangling symlink
  named \<open>icon.png\<close>) makes the function return \<open>None\<close> although the extraction
  succeeded and a candidate was found.
\<close>

theorem none_result_counterexample:
  "is_icon_file dot_png \<and> st_size dot_png = Inr 0 \<and> icon_score dot_png 0 = 0 \<and>
   mkdir_icon_cache dangling_world = None \<and> mkdtemp dangling_world = None \<and>
   run_extract dangling_world = Inr 0 \<and> find_icon_files dangling_world = [dangling_png] \<and>
   fst (extract_and_cache_icons dangling_world ''/home/u/AppImages/Foo.AppImage'' empty_state)
     = Inr None"
proof -
  have a: "is_icon_file dot_png" "st_size dot_png = Inr 0" "icon_score dot_png 0 = 0"
    by (simp_all add: dot_png_def is_icon_file_def icon_score_def string_eval)
  have b: "mkdir_icon_cache dangling_world = None" "mkdtemp dangling_world = None"
    "run_extract dangling_world = Inr 0"
    by (simp_all add: dangling_world_def sample_world_def)
  have c: "find_icon_files dangling_world = [dangling_png]"
    by (simp add: find_icon_files_def dangling_world_def dangling_png_def is_icon_file_def
        string_eval)
  have "\<not> copies_ok dangling_world (icon_cache_dir_of dangling_world)
           (find_icon_files dangling_world) empty_state"
    by (simp add: c copy_ok_def size_known_def dangling_png_def)
  then have "fst (extract_and_cache_icons dangling_world ''/home/u/AppImages/Foo.AppImage''
      empty_state) = Inr None"
    using extract_none_iff[OF b(1,2)] by blast
  with a b c show ?thesis by blast
qed

text \<open>
  C10, amended. Every score is at least 0, and at least 50 for a candidate whose suffix is
  one of the four; so after a scoring loop over a non-empty list that ran to its end,
  \<open>best_icon\<close> is set and the branch \<open>No suitable icon found\<close> is not taken. When
  the cache root and the scratch directory could be created, the function returns
  \<open>None\<close> exactly when the extraction failed, or no candidate was found, or reading,
  directory creation or copying failed for some candidate.
\<close>

theorem best_icon_always_selected:
  "0 \<le> icon_score c n \<and>
   (format_of c \<noteq> None \<longrightarrow> 50 \<le> icon_score c n) \<and>
   (cs \<noteq> [] \<and> fst (score_loop cs (None, - 1) s) = Inr (b, sc) \<longrightarrow> b \<noteq> None) \<and>
   (mkdir_icon_cache w = None \<and> mkdtemp w = None \<longrightarrow>
      (fst (extract_and_cache_icons w p s) = Inr None \<longleftrightarrow>
         run_extract w \<noteq> Inr 0 \<or> find_icon_files w = [] \<or>
         \<not> copies_ok w (icon_cache_dir_of w) (find_icon_files w) s))"
proof (intro conjI impI)
  show "0 \<le> icon_score c n" by (rule icon_score_nonneg)
next
  assume "format_of c \<noteq> None"
  then show "50 \<le> icon_score c n" using icon_score_recognised by blast
next
  assume a: "cs \<noteq> [] \<and> fst (score_loop cs (None, - 1) s) = Inr (b, sc)"
  then have "list_all size_known cs" using score_loop_Inr_sizes by blast
  from score_loop_selects[OF _ this, of s] a show "b \<noteq> None" by auto
next
  assume "mkdir_icon_cache w = None \<and> mkdtemp w = None"
  then show "fst (extract_and_cache_icons w p s) = Inr None \<longleftrightarrow>
         run_extract w \<noteq> Inr 0 \<or> find_icon_files w = [] \<or>
         \<not> copies_ok w (icon_cache_dir_of w) (find_icon_files w) s"
    using extract_none_iff by blast
qed

theorem best_icon_always_selected_witness:
  "format_of (sample_files ! 0) \<noteq> None \<and> 50 \<le> icon_score (sample_files ! 0) 20000 \<and>
   find_icon_files sample_world \<noteq> [] \<and>
   fst (score_loop (find_icon_files sample_world) (None, - 1) empty_state)
     = Inr (Some (sample_files ! 2), 1002) \<and>
   Some (sample_files ! 2) \<noteq> None \<and>
   mkdir_icon_cache sample_world = None \<and> mkdtemp sample_world = None \<and>
   fst (extract_and_cache_icons sample_world ''/home/u/AppImages/Foo.AppImage'' empty_state)
     \<noteq> Inr None \<and>
   mkdir_icon_cache dangling_world = None \<and> mkdtemp dangling_world = None \<and>
   fst (extract_and_cache_icons dangling_world ''/home/u/AppImages/Foo.AppImage'' empty_state)
     = Inr None"
proof -
  note claim = best_icon_always_selected
  have fmt: "format_of (sample_files ! 0) \<noteq> None"
    by (simp add: sample_files_def format_of_def string_eval)
  with claim[where c="sample_files ! 0" and n=20000] have sc: "50 \<le> icon_score (sample_files ! 0) 20000"
    by blast
  have loop: "fst (score_loop (find_icon_files sample_world) (None, - 1) empty_state)
      = Inr (Some (sample_files ! 2), 1002)"
    by (rule sample_score_loop)
  from claim[where cs="find_icon_files sample_world" and s=empty_state
               and b="Some (sample_files ! 2)" and sc=1002] sample_icons_nonempty loop
  have sel: "Some (sample_files ! 2) \<noteq> None" by blast
  from claim[where w=sample_world and p="''/home/u/AppImages/Foo.AppImage''" and s=empty_state]
    sample_world_ok sample_icons_nonempty sample_copies_ok[OF empty_state_files]
  have some: "fst (extract_and_cache_icons sample_world ''/home/u/AppImages/Foo.AppImage''
      empty_state) \<noteq> Inr None" by blast
  have b: "mkdir_icon_cache dangling_world = None" "mkdtemp dangling_world = None"
    by (simp_all add: dangling_world_def sample_world_def)
  have "\<not> copies_ok dangling_world (icon_cache_dir_of dangling_world)
           (find_icon_files dangling_world) empty_state"
    by (simp add: find_icon_files_def dangling_world_def dangling_png_def is_icon_file_def
        copy_ok_def size_known_def string_eval)
  with claim[where w=dangling_world and p="''/home/u/AppImages/Foo.AppImage''" and s=empty_state] b
  have none: "fst (extract_and_cache_icons dangling_world ''/home/u/AppImages/Foo.AppImage''
      empty_state) = Inr None" by blast
  from fmt sc sample_icons_nonempty loop sel sample_world_ok(1,2) some b none
  show ?thesis by blast
qed

section \<open>Entry generation and the batch loop\<close>

lemma extract_frame:
  assumes "x \<notin> copy_target w (icon_cache_dir_of w) ` set (find_icon_files w)"
  shows "files (snd (extract_and_cache_icons w p s)) x = files s x \<and>
         modes (snd (extract_and_cache_icons w p s)) x = modes s x"
  using extract_try_frame[OF assms, of p "logger INFO (''Extracting '' @ p) s"]
  unfolding extract_unfold Let_def by (simp split: option.splits sum.splits)

lemma extract_prefix: "prefix (logged s) (logged (snd (extract_and_cache_icons w p s)))"
proof -
  let ?s0 = "logger INFO (''Extracting '' @ p) s"
  have "prefix (logged ?s0) (logged (snd (extract_try w p (icon_cache_dir_of w) ?s0)))"
    by (rule extract_try_prefix)
  then obtain l where "logged (snd (extract_try w p (icon_cache_dir_of w) ?s0)) = logged s @ l"
    by (auto simp: prefix_def)
  then show ?thesis
    unfolding extract_unfold Let_def by (simp split: option.splits sum.splits)
qed

lemma update_db_fs [simp]:
  "files (snd (update_desktop_database w s)) = files s"
  "modes (snd (update_desktop_database w s)) = modes s"
  by (simp_all add: update_desktop_database_def Let_def split: sum.splits option.splits)

lemma update_db_prefix: "prefix (logged s) (logged (snd (update_desktop_database w s)))"
  by (simp add: update_desktop_database_def Let_def split: sum.splits option.splits)

lemma update_db_result: "fst (update_desktop_database w s) = fst (update_desktop_database w t)"
  by (simp add: update_desktop_database_def Let_def split: sum.splits option.splits)

lemma generate_try_unfold:
  "generate_try w p d s =
     (let x = extract_and_cache_icons w p s;
          content = desktop_content (path_stem (path_name p)) p
                      (case fst x of Inl e \<Rightarrow> None | Inr r \<Rightarrow> r)
                      (detect_category (path_stem (path_name p)))
      in case fst x of
           Inl e \<Rightarrow> (Inl e, snd x)
         | Inr r \<Rightarrow>
             (case open_w w (entry_path d p) of
                Some e \<Rightarrow> (Inl e, snd x)
              | None \<Rightarrow>
                  (case chmod w (entry_path d p) of
                     Some e \<Rightarrow> (Inl e, (snd x)\<lparr>files := (files (snd x))(entry_path d p \<mapsto> content)\<rparr>)
                   | None \<Rightarrow>
                       update_desktop_database w
                         (logger INFO (''Generated desktop file: '' @ entry_path d p)
                            ((snd x)\<lparr>files := (files (snd x))(entry_path d p \<mapsto> content),
                                     modes := (modes (snd x))(entry_path d p \<mapsto> 493)\<rparr>)))))"
proof -
  obtain r1 s1 where x: "extract_and_cache_icons w p s = (r1, s1)"
    by (cases "extract_and_cache_icons w p s")
  show ?thesis
    unfolding generate_try_def entry_path_def Let_def x
    by (cases r1) (simp_all split: option.splits)
qed

lemma generate_unfold:
  "generate_desktop_file w p d s =
     (let t = generate_try w p d s in
      case fst t of
        Inl e \<Rightarrow> (Inr (), logger ERROR (''Error generating desktop file for '' @ p) (snd t))
      | Inr u \<Rightarrow> (Inr u, snd t))"
proof -
  obtain r1 s1 where t: "generate_try w p d s = (r1, s1)" by (cases "generate_try w p d s")
  show ?thesis unfolding generate_desktop_file_def Let_def t by (cases r1) simp_all
qed

lemma generate_returns: "fst (generate_desktop_file w p d s) = Inr ()"
  unfolding generate_unfold Let_def by (simp split: sum.splits)

lemma generate_try_prefix: "prefix (logged s) (logged (snd (generate_try w p d s)))"
proof -
  let ?x = "extract_and_cache_icons w p s"
  from extract_prefix[of s w p] obtain l where l: "logged (snd ?x) = logged s @ l"
    by (auto simp: prefix_def)
  have "prefix (logged s) (logged (snd (update_desktop_database w (logger INFO m (t\<lparr>files := f, modes := g\<rparr>)))))"
    if "logged t = logged s @ l" for m t f g
    using update_db_prefix[of "logger INFO m (t\<lparr>files := f, modes := g\<rparr>)" w] that
    by (auto simp: prefix_def)
  with l show ?thesis
    unfolding generate_try_unfold Let_def by (simp split: sum.splits option.splits)
qed

lemma generate_prefix: "prefix (logged s) (logged (snd (generate_desktop_file w p d s)))"
  using generate_try_prefix[of s w p d]
  unfolding generate_unfold Let_def by (auto simp: prefix_def split: sum.splits)

lemma generate_error_logged:
  "fst (generate_try w p d s) = Inl e \<Longrightarrow>
   logged (snd (generate_desktop_file w p d s))
     = logged (snd (generate_try w p d s)) @ [(ERROR, ''Error generating desktop file for '' @ p)]"
  unfolding generate_unfold Let_def by simp

lemma main_loop_step:
  "main_loop ws (a # rest) d s =
     main_loop ws rest d
       (snd (generate_desktop_file (ws a) a d (logger INFO (''Processing: '' @ path_name a) s)))"
proof -
  let ?g = "generate_desktop_file (ws a) a d (logger INFO (''Processing: '' @ path_name a) s)"
  have "fst ?g = Inr ()" by (rule generate_returns)
  then obtain s1 where g: "?g = (Inr (), s1)" by (metis prod.collapse)
  show ?thesis unfolding main_loop.simps g by simp
qed

lemma main_loop_returns: "fst (main_loop ws apps d s) = Inr ()"
proof (induction apps arbitrary: s)
  case Nil
  show ?case by simp
next
  case (Cons a apps)
  show ?case unfolding main_loop_step by (rule Cons.IH)
qed

lemma main_loop_prefix: "prefix (logged s) (logged (snd (main_loop ws apps d s)))"
proof (induction apps arbitrary: s)
  case Nil
  show ?case by simp
next
  case (Cons a apps)
  let ?s0 = "logger INFO (''Processing: '' @ path_name a) s"
  let ?s1 = "snd (generate_desktop_file (ws a) a d ?s0)"
  have "prefix (logged s) (logged ?s0)" by simp
  also have "prefix (logged ?s0) (logged ?s1)" by (rule generate_prefix)
  also have "prefix (logged ?s1) (logged (snd (main_loop ws (a # apps) d s)))"
    unfolding main_loop_step by (rule Cons.IH)
  finally show ?case .
qed

lemma main_loop_processes_all:
  "a \<in> set apps \<Longrightarrow>
   (INFO, ''Processing: '' @ path_name a) \<in> set (logged (snd (main_loop ws apps d s)))"
proof (induction apps arbitrary: s)
  case Nil
  then show ?case by simp
next
  case (Cons b apps)
  let ?s0 = "logger INFO (''Processing: '' @ path_name b) s"
  let ?s1 = "snd (generate_desktop_file (ws b) b d ?s0)"
  show ?case
  proof (cases "a = b")
    case True
    have "(INFO, ''Processing: '' @ path_name a) \<in> set (logged ?s0)" using True by simp
    moreover have "prefix (logged ?s0) (logged (snd (main_loop ws (b # apps) d s)))"
    proof -
      have "prefix (logged ?s0) (logged ?s1)" by (rule generate_prefix)
      also have "prefix (logged ?s1) (logged (snd (main_loop ws (b # apps) d s)))"
        unfolding main_loop_step by (rule main_loop_prefix)
      finally show ?thesis .
    qed
    ultimately show ?thesis by (auto simp: prefix_def)
  next
    case False
    with Cons.prems have "a \<in> set apps" by simp
    from Cons.IH[OF this] show ?thesis unfolding main_loop_step .
  qed
qed

lemma path_stem_nonempty: "name \<noteq> [] \<Longrightarrow> path_stem name \<noteq> []"
  unfolding path_stem_def Let_def by (cases name) auto

lemma icon_file_named: "is_icon_file c \<Longrightarrow> filename c \<noteq> []"
  unfolding is_icon_file_def lower_def by (auto simp: suffix_def)

lemma extract_try_some_nonempty:
  assumes "fst (extract_try w p icd s) = Inr (Some n)"
  shows "n \<noteq> []"
proof -
  let ?sl = "score_loop (find_icon_files w) (None, - 1) (logger INFO (''Found icons in '' @ p) s)"
  from assms obtain best sc where b: "fst ?sl = Inr (Some best, sc)"
      and n: "n = path_stem (filename best)"
    unfolding extract_try_unfold Let_def
    by (auto split: sum.splits if_splits option.splits simp: prod_eq_iff)
  from score_loop_member[OF b] have "best \<in> set (find_icon_files w)" by simp
  then have "is_icon_file best" by (simp add: find_icon_files_def)
  then show ?thesis unfolding n by (intro path_stem_nonempty icon_file_named)
qed

lemma extract_some_nonempty:
  "fst (extract_and_cache_icons w p s) = Inr (Some n) \<Longrightarrow> n \<noteq> []"
  unfolding extract_unfold Let_def
  by (auto split: option.splits sum.splits dest: extract_try_some_nonempty)

lemma desktop_content_entry_text:
  assumes "\<And>n. r = Inr (Some n) \<Longrightarrow> n \<noteq> []"
  shows "desktop_content name p (case r of Inl e \<Rightarrow> None | Inr i \<Rightarrow> i) cat
           = entry_text name p (icon_or_fallback r) cat"
  using assms unfolding desktop_content_def entry_text_def icon_or_fallback_def
  by (cases r) (auto split: option.splits)

lemma extract_no_raise:
  "mkdir_icon_cache w = None \<Longrightarrow> mkdtemp w = None \<Longrightarrow>
   \<exists>r. fst (extract_and_cache_icons w p s) = Inr r"
  unfolding extract_unfold Let_def by (simp split: sum.splits)

lemma generate_try_files:
  assumes "mkdir_icon_cache w = None" "mkdtemp w = None" "open_w w (entry_path d p) = None"
  shows "files (snd (generate_try w p d s)) (entry_path d p)
           = Some (entry_text (path_stem (path_name p)) p
                    (icon_or_fallback (fst (extract_and_cache_icons w p s)))
                    (classify (path_stem (path_name p))))"
proof -
  from extract_no_raise[OF assms(1,2), of p s] obtain r
    where r: "fst (extract_and_cache_icons w p s) = Inr r" by blast
  have c: "desktop_content (path_stem (path_name p)) p
             (case fst (extract_and_cache_icons w p s) of Inl e \<Rightarrow> None | Inr i \<Rightarrow> i)
             (detect_category (path_stem (path_name p)))
           = entry_text (path_stem (path_name p)) p
               (icon_or_fallback (fst (extract_and_cache_icons w p s)))
               (classify (path_stem (path_name p)))"
    unfolding detect_category_classify
    by (rule desktop_content_entry_text) (rule extract_some_nonempty)
  show ?thesis
    unfolding generate_try_unfold Let_def c using r assms(3)
    by (simp split: option.splits)
qed

lemma generate_files:
  assumes "mkdir_icon_cache w = None" "mkdtemp w = None" "open_w w (entry_path d p) = None"
  shows "files (snd (generate_desktop_file w p d s)) (entry_path d p)
           = Some (entry_text (path_stem (path_name p)) p
                    (icon_or_fallback (fst (extract_and_cache_icons w p s)))
                    (classify (path_stem (path_name p))))"
  using generate_try_files[OF assms, of s]
  unfolding generate_unfold Let_def by (simp split: sum.splits)

lemma generate_modes:
  assumes "mkdir_icon_cache w = None" "mkdtemp w = None" "open_w w (entry_path d p) = None"
    "chmod w (entry_path d p) = None"
  shows "modes (snd (generate_desktop_file w p d s)) (entry_path d p) = Some 493"
proof -
  from extract_no_raise[OF assms(1,2), of p s] obtain r
    where r: "fst (extract_and_cache_icons w p s) = Inr r" by blast
  have "modes (snd (generate_try w p d s)) (entry_path d p) = Some 493"
    unfolding generate_try_unfold Let_def using r assms(3,4) by simp
  then show ?thesis unfolding generate_unfold Let_def by (simp split: sum.splits)
qed

text \<open>
  C3. Once the cache root and the scratch directory exist, if the extraction fails (the
  subprocess cannot be launched, it times out, any other exception, or a non-zero exit
  status; that is, anything but a completed run with status 0) or finds no icon file,
  \<open>extract_and_cache_icons\<close> returns \<open>None\<close>, and if the entry file can be opened
  for writing, \<open>generate_desktop_file\<close> leaves there the entry whose \<open>Icon\<close> line is
  the fallback \<open>application-x-executable\<close>.
\<close>

theorem extraction_failure_falls_back:
  assumes "mkdir_icon_cache w = None" and "mkdtemp w = None"
    and "run_extract w \<noteq> Inr 0 \<or> find_icon_files w = []"
  shows "fst (extract_and_cache_icons w p s) = Inr None \<and>
         (open_w w (entry_path d p) = None \<longrightarrow>
            files (snd (generate_desktop_file w p d s)) (entry_path d p)
              = Some (entry_text (path_stem (path_name p)) p ''application-x-executable''
                        (classify (path_stem (path_name p)))))"
proof -
  from assms(3) have none: "fst (extract_and_cache_icons w p s) = Inr None"
    using extract_none_iff[OF assms(1,2), where p=p and s=s] by blast
  then have "icon_or_fallback (fst (extract_and_cache_icons w p s)) = ''application-x-executable''"
    by (simp add: icon_or_fallback_def)
  with none generate_files[OF assms(1,2), of d p s] show ?thesis by simp
qed

text \<open>
  C5. When the cache root and the scratch directory could be created and the entry file
  can be opened and its mode changed, \<open>generate_desktop_file\<close> leaves at
  \<open><desktop_dir>/<stem>.desktop\<close> exactly the eight lines of the template, with the
  stem as \<open>Name\<close>, the bundle path as passed followed by \<open>%u\<close> as \<open>Exec\<close>, the
  extracted icon name or the fallback as \<open>Icon\<close> and the classifier's result as
  \<open>Categories\<close>, and sets the mode to \<open>0o755\<close>; the handler's method does the same.
\<close>

theorem generate_writes_entry:
  assumes "mkdir_icon_cache w = None" and "mkdtemp w = None"
    and "open_w w (entry_path d p) = None" and "chmod w (entry_path d p) = None"
  shows "files (snd (generate_desktop_file w p d s)) (entry_path d p)
           = Some (entry_text (path_stem (path_name p)) p
                    (icon_or_fallback (fst (extract_and_cache_icons w p s)))
                    (classify (path_stem (path_name p)))) \<and>
         modes (snd (generate_desktop_file w p d s)) (entry_path d p) = Some 493 \<and>
         owner_executable 493 \<and>
         (self_desktop_dir self = d \<longrightarrow>
            AppImageHandler_generate_desktop_file self w p s = generate_desktop_file w p d s)"
  using generate_files[OF assms(1,2,3), of s] generate_modes[OF assms, of s]
  by (auto simp: owner_executable_def handler_generate)

lemma extraction_failure_logged:
  assumes "mkdir_icon_cache w = None" "mkdtemp w = None" "run_extract w \<noteq> Inr 0"
  shows "\<exists>l m. (l = WARNING \<or> l = ERROR) \<and>
           logged (snd (extract_and_cache_icons w p s))
             = logged s @ [(INFO, ''Extracting '' @ p), (l, m)]"
proof (cases "run_extract w")
  case (Inl e)
  then show ?thesis
    unfolding extract_unfold extract_try_unfold Let_def using assms(1,2) by simp
next
  case (Inr rc)
  with assms(3) have "rc \<noteq> 0" by simp
  with Inr show ?thesis
    unfolding extract_unfold extract_try_unfold Let_def using assms(1,2) by simp
qed

lemma write_failure_raises:
  assumes "mkdir_icon_cache w = None" "mkdtemp w = None"
    and "open_w w (entry_path d p) = Some e \<or>
         (open_w w (entry_path d p) = None \<and> chmod w (entry_path d p) = Some e)"
  shows "fst (generate_try w p d s) = Inl e"
proof -
  from extract_no_raise[OF assms(1,2), of p s] obtain r
    where r: "fst (extract_and_cache_icons w p s) = Inr r" by blast
  from assms(3) show ?thesis
    unfolding generate_try_unfold Let_def using r by auto
qed

lemma main_loop_fold:
  "main_loop ws apps d s =
     (Inr (),
      fold (\<lambda>a s. snd (generate_desktop_file (ws a) a d
                          (logger INFO (''Processing: '' @ path_name a) s))) apps s)"
proof (induction apps arbitrary: s)
  case Nil
  show ?case by simp
next
  case (Cons a apps)
  show ?case unfolding main_loop_step Cons.IH by simp
qed

lemma main_loop_append:
  "snd (main_loop ws (xs @ ys) d s) = snd (main_loop ws ys d (snd (main_loop ws xs d s)))"
  unfolding main_loop_fold by simp

lemma generate_try_outcome_logged:
  "(\<exists>e. fst (generate_try w p d s) = Inl e) \<or>
   (INFO, ''Generated desktop file: '' @ entry_path d p)
     \<in> set (logged (snd (generate_try w p d s)))"
proof (cases "fst (generate_try w p d s)")
  case (Inl e)
  then show ?thesis by blast
next
  case (Inr u)
  let ?x = "extract_and_cache_icons w p s"
  have "(INFO, m) \<in> set (logged (snd (update_desktop_database w (logger INFO m t))))" for m t
    using update_db_prefix[of "logger INFO m t" w] by (auto simp: prefix_def)
  with Inr show ?thesis
    unfolding generate_try_unfold Let_def
    by (auto split: sum.splits option.splits)
qed

lemma generate_outcome_logged:
  "(INFO, ''Generated desktop file: '' @ entry_path d p)
     \<in> set (logged (snd (generate_desktop_file w p d s))) \<or>
   (ERROR, ''Error generating desktop file for '' @ p)
     \<in> set (logged (snd (generate_desktop_file w p d s)))"
  using generate_try_outcome_logged[of w p d s]
  unfolding generate_unfold Let_def by (auto split: sum.splits)

lemma main_loop_outcome_logged:
  "a \<in> set apps \<Longrightarrow>
   (INFO, ''Generated desktop file: '' @ entry_path d a)
     \<in> set (logged (snd (main_loop ws apps d s))) \<or>
   (ERROR, ''Error generating desktop file for '' @ a)
     \<in> set (logged (snd (main_loop ws apps d s)))"
proof (induction apps arbitrary: s)
  case Nil
  then show ?case by simp
next
  case (Cons b apps)
  let ?s0 = "logger INFO (''Processing: '' @ path_name b) s"
  let ?s1 = "snd (generate_desktop_file (ws b) b d ?s0)"
  show ?case
  proof (cases "a = b")
    case True
    have "prefix (logged ?s1) (logged (snd (main_loop ws (b # apps) d s)))"
      unfolding main_loop_step by (rule main_loop_prefix)
    with generate_outcome_logged[of d b "ws b" ?s0] show ?thesis
      unfolding True by (auto simp: prefix_def)
  next
    case False
    with Cons.prems have "a \<in> set apps" by simp
    from Cons.IH[OF this] show ?thesis unfolding main_loop_step .
  qed
qed

lemma main_loop_writes_entry:
  assumes "mkdir_icon_cache (ws a) = None" "mkdtemp (ws a) = None"
    "open_w (ws a) (entry_path d a) = None"
  shows "files (snd (main_loop ws (pre @ [a]) d s)) (entry_path d a)
           = Some (entry_text (path_stem (path_name a)) a
                     (icon_or_fallback
                        (fst (extract_and_cache_icons (ws a) a
                                (logger INFO (''Processing: '' @ path_name a)
                                   (snd (main_loop ws pre d s))))))
                     (classify (path_stem (path_name a))))"
proof -
  have "snd (main_loop ws (pre @ [a]) d s)
          = snd (generate_desktop_file (ws a) a d
                   (logger INFO (''Processing: '' @ path_name a) (snd (main_loop ws pre d s))))"
    unfolding main_loop_append main_loop_step by simp
  then show ?thesis by (simp only: generate_files[OF assms])
qed

text \<open>
  C9. \<open>generate_desktop_file\<close> returns normally whatever the environment answers,
  in the script and in the handler: an exception reaching its handler is logged as an
  error; a failing extraction is logged as a warning or an error where it happens; a
  failure to open the entry file or to change its mode reaches the handler; a failing
  refresh of the menu database is either logged as a warning on the spot or reaches the
  handler. The batch loop returns normally and hands every bundle of the list, in order,
  to \<open>generate_desktop_file\<close>, each starting from the state the one before left,
  whatever happened there: at the end the log holds, for every bundle, the record of its
  turn and either the record of its entry or the record of its error, and a bundle whose
  entry file can be opened has its entry written when its turn ends.
\<close>

theorem generate_never_raises:
  "fst (generate_desktop_file w p d s) = Inr () \<and>
   fst (AppImageHandler_generate_desktop_file self w p s) = Inr () \<and>
   (\<forall>e. fst (generate_try w p d s) = Inl e \<longrightarrow>
      logged (snd (generate_desktop_file w p d s))
        = logged (snd (generate_try w p d s))
            @ [(ERROR, ''Error generating desktop file for '' @ p)]) \<and>
   (mkdir_icon_cache w = None \<and> mkdtemp w = None \<and> run_extract w \<noteq> Inr 0 \<longrightarrow>
      (\<exists>l m. (l = WARNING \<or> l = ERROR) \<and>
         logged (snd (extract_and_cache_icons w p s))
           = logged s @ [(INFO, ''Extracting '' @ p), (l, m)])) \<and>
   (mkdir_icon_cache w = None \<and> mkdtemp w = None \<and>
    (open_w w (entry_path d p) = Some x \<or>
     (open_w w (entry_path d p) = None \<and> chmod w (entry_path d p) = Some x)) \<longrightarrow>
      fst (generate_try w p d s) = Inl x) \<and>
   (run_update_db w \<noteq> Inr 0 \<longrightarrow>
      (\<exists>e. fst (update_desktop_database w s) = Inl e) \<or>
      (\<exists>m. logged (snd (update_desktop_database w s)) = logged s @ [(WARNING, m)])) \<and>
   main_loop ws apps d s =
     (Inr (),
      fold (\<lambda>a s. snd (generate_desktop_file (ws a) a d
                          (logger INFO (''Processing: '' @ path_name a) s))) apps s) \<and>
   (\<forall>a\<in>set apps.
      (INFO, ''Processing: '' @ path_name a) \<in> set (logged (snd (main_loop ws apps d s))) \<and>
      ((INFO, ''Generated desktop file: '' @ entry_path d a)
         \<in> set (logged (snd (main_loop ws apps d s))) \<or>
       (ERROR, ''Error generating desktop file for '' @ a)
         \<in> set (logged (snd (main_loop ws apps d s))))) \<and>
   (\<forall>pre a post. apps = pre @ a # post \<and> mkdir_icon_cache (ws a) = None \<and>
        mkdtemp (ws a) = None \<and> open_w (ws a) (entry_path d a) = None \<longrightarrow>
      files (snd (main_loop ws (pre @ [a]) d s)) (entry_path d a)
        = Some (entry_text (path_stem (path_name a)) a
                  (icon_or_fallback
                     (fst (extract_and_cache_icons (ws a) a
                             (logger INFO (''Processing: '' @ path_name a)
                                (snd (main_loop ws pre d s))))))
                  (classify (path_stem (path_name a)))))"
proof (intro conjI allI impI ballI)
  show "fst (generate_desktop_file w p d s) = Inr ()" by (rule generate_returns)
  show "fst (AppImageHandler_generate_desktop_file self w p s) = Inr ()"
    unfolding handler_generate by (rule generate_returns)
  show "main_loop ws apps d s =
     (Inr (),
      fold (\<lambda>a s. snd (generate_desktop_file (ws a) a d
                          (logger INFO (''Processing: '' @ path_name a) s))) apps s)"
    by (rule main_loop_fold)
next
  fix e assume "fst (generate_try w p d s) = Inl e"
  then show "logged (snd (generate_desktop_file w p d s))
        = logged (snd (generate_try w p d s))
            @ [(ERROR, ''Error generating desktop file for '' @ p)]"
    by (rule generate_error_logged)
next
  assume "mkdir_icon_cache w = None \<and> mkdtemp w = None \<and> run_extract w \<noteq> Inr 0"
  then show "\<exists>l m. (l = WARNING \<or> l = ERROR) \<and>
         logged (snd (extract_and_cache_icons w p s))
           = logged s @ [(INFO, ''Extracting '' @ p), (l, m)]"
    using extraction_failure_logged by blast
next
  assume "mkdir_icon_cache w = None \<and> mkdtemp w = None \<and>
    (open_w w (entry_path d p) = Some x \<or>
     (open_w w (entry_path d p) = None \<and> chmod w (entry_path d p) = Some x))"
  then show "fst (generate_try w p d s) = Inl x"
    using write_failure_raises by blast
next
  assume "run_update_db w \<noteq> Inr 0"
  then show "(\<exists>e. fst (update_desktop_database w s) = Inl e) \<or>
      (\<exists>m. logged (snd (update_desktop_database w s)) = logged s @ [(WARNING, m)])"
    unfolding update_desktop_database_def Let_def
    by (cases "run_update_db w") auto
next
  fix a assume "a \<in> set apps"
  then show "(INFO, ''Processing: '' @ path_name a)
      \<in> set (logged (snd (main_loop ws apps d s)))"
    by (rule main_loop_processes_all)
next
  fix a assume "a \<in> set apps"
  then show "(INFO, ''Generated desktop file: '' @ entry_path d a)
         \<in> set (logged (snd (main_loop ws apps d s))) \<or>
       (ERROR, ''Error generating desktop file for '' @ a)
         \<in> set (logged (snd (main_loop ws apps d s)))"
    by (rule main_loop_outcome_logged)
next
  fix pre a post
  assume "apps = pre @ a # post \<and> mkdir_icon_cache (ws a) = None \<and>
        mkdtemp (ws a) = None \<and> open_w (ws a) (entry_path d a) = None"
  then show "files (snd (main_loop ws (pre @ [a]) d s)) (entry_path d a)
        = Some (entry_text (path_stem (path_name a)) a
                  (icon_or_fallback
                     (fst (extract_and_cache_icons (ws a) a
                             (logger INFO (''Processing: '' @ path_name a)
                                (snd (main_loop ws pre d s))))))
                  (classify (path_stem (path_name a))))"
    using main_loop_writes_entry by blast
qed

text \<open>
  C7. The three methods of the handler return the same result and leave the same state
  (files, modes and log records) as the three functions of the script, with the handler's
  \<open>desktop_dir\<close> as the directory argument.
\<close>

theorem monitor_equals_script:
  "AppImageHandler_detect_category self app_name = detect_category app_name \<and>
   AppImageHandler_extract_and_cache_icons self w p s = extract_and_cache_icons w p s \<and>
   AppImageHandler_generate_desktop_file self w p s
     = generate_desktop_file w p (self_desktop_dir self) s"
  by (simp add: handler_detect_category_classify detect_category_classify handler_extract
      handler_generate)

section \<open>Running generation twice\<close>




lemma generate_state:
  "files (snd (generate_desktop_file w p d s)) =
     (let x = extract_and_cache_icons w p s in
      case fst x of
        Inl e \<Rightarrow> files (snd x)
      | Inr r \<Rightarrow>
          (case open_w w (entry_path d p) of
             Some e \<Rightarrow> files (snd x)
           | None \<Rightarrow>
               (files (snd x))
                 (entry_path d p \<mapsto>
                    desktop_content (path_stem (path_name p)) p r
                      (detect_category (path_stem (path_name p))))))"
  "modes (snd (generate_desktop_file w p d s)) =
     (let x = extract_and_cache_icons w p s in
      case fst x of
        Inl e \<Rightarrow> modes (snd x)
      | Inr r \<Rightarrow>
          (case open_w w (entry_path d p) of
             Some e \<Rightarrow> modes (snd x)
           | None \<Rightarrow>
               (case chmod w (entry_path d p) of
                  Some e \<Rightarrow> modes (snd x)
                | None \<Rightarrow> (modes (snd x))(entry_path d p \<mapsto> 493))))"
  unfolding generate_unfold generate_try_unfold Let_def
  by (simp_all split: sum.splits option.splits)


lemma sample_paths:
  "entry_path ''/home/u/.local/share/applications'' ''/home/u/AppImages/Foo.AppImage''
     = ''/home/u/.local/share/applications/Foo.desktop''"
  "path_stem (path_name ''/home/u/AppImages/Foo.AppImage'') = ''Foo''"
  by (simp_all add: entry_path_def string_eval)

lemma classify_Foo: "classify ''Foo'' = ''Utility;''"
  by code_simp








section \<open>The results on the sample environments\<close>

lemma failing_world_ok:
  "mkdir_icon_cache failing_world = None" "mkdtemp failing_world = None"
  "run_extract failing_world \<noteq> Inr 0 \<or> find_icon_files failing_world = []"
  "open_w failing_world f = None"
  by (simp_all add: failing_world_def sample_world_def)

theorem extraction_failure_falls_back_witness:
  "mkdir_icon_cache failing_world = None \<and> mkdtemp failing_world = None \<and>
   run_extract failing_world = Inl FileNotFoundError \<and>
   open_w failing_world ''/home/u/.local/share/applications/Foo.desktop'' = None \<and>
   fst (extract_and_cache_icons failing_world ''/home/u/AppImages/Foo.AppImage'' empty_state)
     = Inr None \<and>
   files (snd (generate_desktop_file failing_world ''/home/u/AppImages/Foo.AppImage''
                 ''/home/u/.local/share/applications'' empty_state))
     ''/home/u/.local/share/applications/Foo.desktop''
     = Some (entry_text ''Foo'' ''/home/u/AppImages/Foo.AppImage''
               ''application-x-executable'' ''Utility;'')"
proof -
  have run: "run_extract failing_world = Inl FileNotFoundError"
    by (simp add: failing_world_def)
  from extraction_failure_falls_back
         [where w=failing_world and p="''/home/u/AppImages/Foo.AppImage''" and s=empty_state
            and d="''/home/u/.local/share/applications''", OF failing_world_ok(1,2,3)]
       failing_world_ok(4)[of "''/home/u/.local/share/applications/Foo.desktop''"]
  have "fst (extract_and_cache_icons failing_world ''/home/u/AppImages/Foo.AppImage''
               empty_state) = Inr None \<and>
        files (snd (generate_desktop_file failing_world ''/home/u/AppImages/Foo.AppImage''
                 ''/home/u/.local/share/applications'' empty_state))
          ''/home/u/.local/share/applications/Foo.desktop''
          = Some (entry_text ''Foo'' ''/home/u/AppImages/Foo.AppImage''
               ''application-x-executable'' ''Utility;'')"
    unfolding sample_paths classify_Foo by simp
  with failing_world_ok(1,2) failing_world_ok(4)[of "''/home/u/.local/share/applications/Foo.desktop''"]
    run show ?thesis by simp
qed

lemma sample_world_writable:
  "open_w sample_world f = None" "chmod sample_world f = None"
  by (simp_all add: sample_world_def)

theorem generate_writes_entry_witness:
  "mkdir_icon_cache sample_world = None \<and> mkdtemp sample_world = None \<and>
   open_w sample_world ''/home/u/.local/share/applications/Foo.desktop'' = None \<and>
   chmod sample_world ''/home/u/.local/share/applications/Foo.desktop'' = None \<and>
   files (snd (generate_desktop_file sample_world ''/home/u/AppImages/Foo.AppImage''
                 ''/home/u/.local/share/applications'' empty_state))
     ''/home/u/.local/share/applications/Foo.desktop''
     = Some (entry_text ''Foo'' ''/home/u/AppImages/Foo.AppImage'' ''app'' ''Utility;'') \<and>
   modes (snd (generate_desktop_file sample_world ''/home/u/AppImages/Foo.AppImage''
                 ''/home/u/.local/share/applications'' empty_state))
     ''/home/u/.local/share/applications/Foo.desktop'' = Some 493"
proof -
  have icon: "icon_or_fallback (fst (extract_and_cache_icons sample_world
      ''/home/u/AppImages/Foo.AppImage'' empty_state)) = ''app''"
    by (simp add: sample_extract[OF empty_state_files] icon_or_fallback_def)
  from generate_writes_entry
         [where w=sample_world and d="''/home/u/.local/share/applications''"
            and p="''/home/u/AppImages/Foo.AppImage''" and s=empty_state,
          OF sample_world_ok(1,2) sample_world_writable]
  have "files (snd (generate_desktop_file sample_world ''/home/u/AppImages/Foo.AppImage''
                 ''/home/u/.local/share/applications'' empty_state))
     ''/home/u/.local/share/applications/Foo.desktop''
     = Some (entry_text ''Foo'' ''/home/u/AppImages/Foo.AppImage'' ''app'' ''Utility;'') \<and>
   modes (snd (generate_desktop_file sample_world ''/home/u/AppImages/Foo.AppImage''
                 ''/home/u/.local/share/applications'' empty_state))
     ''/home/u/.local/share/applications/Foo.desktop'' = Some 493"
    unfolding sample_paths classify_Foo icon by simp
  with sample_world_ok(1,2) sample_world_writable show ?thesis by simp
qed




theorem monitor_equals_script_witness:
  "AppImageHandler_detect_category sample_handler ''Foo'' = detect_category ''Foo'' \<and>
   AppImageHandler_extract_and_cache_icons sample_handler sample_world
       ''/home/u/AppImages/Foo.AppImage'' empty_state
     = extract_and_cache_icons sample_world ''/home/u/AppImages/Foo.AppImage'' empty_state \<and>
   AppImageHandler_generate_desktop_file sample_handler sample_world
       ''/home/u/AppImages/Foo.AppImage'' empty_state
     = generate_desktop_file sample_world ''/home/u/AppImages/Foo.AppImage''
         ''/home/u/.local/share/applications'' empty_state \<and>
   fst (AppImageHandler_extract_and_cache_icons sample_handler sample_world
          ''/home/u/AppImages/Foo.AppImage'' empty_state) = Inr (Some ''app'')"
proof -
  have d: "self_desktop_dir sample_handler = ''/home/u/.local/share/applications''"
    by (simp add: sample_handler_def)
  from monitor_equals_script
         [of sample_handler "''Foo''" sample_world "''/home/u/AppImages/Foo.AppImage''"
             empty_state]
  show ?thesis unfolding d by (simp add: sample_extract[OF empty_state_files])
qed

lemma readonly_world_ok:
  "mkdir_icon_cache readonly_world = None" "mkdtemp readonly_world = None"
  "open_w readonly_world f = Some OtherException"
  "run_extract readonly_world = Inl FileNotFoundError"
  by (simp_all add: readonly_world_def failing_world_def sample_world_def)

lemma failed_run_files:
  assumes "run_extract w = Inl e" "open_w w (entry_path d p) \<noteq> None"
  shows "files (snd (generate_desktop_file w p d s)) = files s"
  unfolding generate_state Let_def extract_unfold extract_try_unfold using assms
  by (auto split: sum.splits option.splits)

lemma batch_paths:
  "entry_path ''/home/u/.local/share/applications'' ''/home/u/AppImages/B.AppImage''
     = ''/home/u/.local/share/applications/B.desktop''"
  "entry_path ''/home/u/.local/share/applications'' ''/home/u/AppImages/A.AppImage''
     = ''/home/u/.local/share/applications/A.desktop''"
  "path_stem (path_name ''/home/u/AppImages/B.AppImage'') = ''B''"
  "path_name ''/home/u/AppImages/B.AppImage'' = ''B.AppImage''"
  "path_name ''/home/u/AppImages/A.AppImage'' = ''A.AppImage''"
  by (simp_all add: entry_path_def string_eval)

lemma classify_B: "classify ''B'' = ''Utility;''"
  by code_simp

theorem generate_never_raises_witness:
  "open_w readonly_world ''/home/u/.local/share/applications/A.desktop''
     = Some OtherException \<and>
   fst (generate_try readonly_world ''/home/u/AppImages/A.AppImage''
          ''/home/u/.local/share/applications'' empty_state) = Inl OtherException \<and>
   fst (generate_desktop_file readonly_world ''/home/u/AppImages/A.AppImage''
          ''/home/u/.local/share/applications'' empty_state) = Inr () \<and>
   (ERROR, ''Error generating desktop file for /home/u/AppImages/A.AppImage'')
     \<in> set (logged (snd (generate_desktop_file readonly_world ''/home/u/AppImages/A.AppImage''
                            ''/home/u/.local/share/applications'' empty_state))) \<and>
   run_update_db no_updater_world \<noteq> Inr 0 \<and>
   logged (snd (update_desktop_database no_updater_world empty_state))
     = [(WARNING, ''update-desktop-database not found'')] \<and>
   sample_bundles = [''/home/u/AppImages/A.AppImage'', ''/home/u/AppImages/B.AppImage''] \<and>
   sample_worlds ''/home/u/AppImages/A.AppImage'' = readonly_world \<and>
   sample_worlds ''/home/u/AppImages/B.AppImage'' = sample_world \<and>
   fst (main_loop sample_worlds sample_bundles ''/home/u/.local/share/applications''
          empty_state) = Inr () \<and>
   (INFO, ''Processing: B.AppImage'')
     \<in> set (logged (snd (main_loop sample_worlds sample_bundles
                            ''/home/u/.local/share/applications'' empty_state))) \<and>
   files (snd (main_loop sample_worlds sample_bundles ''/home/u/.local/share/applications''
                 empty_state))
     ''/home/u/.local/share/applications/B.desktop''
     = Some (entry_text ''B'' ''/home/u/AppImages/B.AppImage'' ''app'' ''Utility;'')"
proof -
  let ?a = "''/home/u/AppImages/A.AppImage''" and ?b = "''/home/u/AppImages/B.AppImage''"
    and ?d = "''/home/u/.local/share/applications''"
  note claim = generate_never_raises
  note ro = readonly_world_ok
  have op: "open_w readonly_world ''/home/u/.local/share/applications/A.desktop''
     = Some OtherException" by (rule ro(3))
  from claim[where w=readonly_world and p="?a" and d="?d" and s=empty_state
               and x=OtherException] ro(1,2) ro(3)[of "entry_path ?d ?a"]
  have fail: "fst (generate_try readonly_world ?a ?d empty_state) = Inl OtherException"
    by blast
  from claim[where w=readonly_world and p="?a" and d="?d" and s=empty_state] fail
  have ret: "fst (generate_desktop_file readonly_world ?a ?d empty_state) = Inr ()"
    and err: "(ERROR, ''Error generating desktop file for /home/u/AppImages/A.AppImage'')
      \<in> set (logged (snd (generate_desktop_file readonly_world ?a ?d empty_state)))"
    by simp_all
  have nu: "run_update_db no_updater_world \<noteq> Inr 0"
    "logged (snd (update_desktop_database no_updater_world empty_state))
       = [(WARNING, ''update-desktop-database not found'')]"
    by (simp_all add: no_updater_world_def sample_world_def update_desktop_database_def
        empty_state_def)
  have bs: "sample_bundles = [?a, ?b]" by (simp add: sample_bundles_def)
  have ws: "sample_worlds ?a = readonly_world" "sample_worlds ?b = sample_world"
    by (simp_all add: sample_worlds_def)
  have mem: "?b \<in> set sample_bundles" by (simp add: sample_bundles_def)
  from claim[where ws=sample_worlds and apps=sample_bundles and d="?d" and s=empty_state] mem
  have loop: "fst (main_loop sample_worlds sample_bundles ?d empty_state) = Inr ()"
    and proc: "(INFO, ''Processing: '' @ path_name ?b)
      \<in> set (logged (snd (main_loop sample_worlds sample_bundles ?d empty_state)))"
    by (simp, blast)
  let ?sa = "logger INFO (''Processing: '' @ path_name ?b)
               (snd (main_loop sample_worlds [?a] ?d empty_state))"
  have "snd (main_loop sample_worlds [?a] ?d empty_state)
          = snd (generate_desktop_file readonly_world ?a ?d
                   (logger INFO (''Processing: '' @ path_name ?a) empty_state))"
    unfolding main_loop_step ws by simp
  then have "files ?sa = files (logger INFO (''Processing: '' @ path_name ?a) empty_state)"
    using failed_run_files[where w=readonly_world and d="?d" and p="?a", OF ro(4)]
      ro(3)[of "entry_path ?d ?a"] by simp
  then have fa: "files ?sa = Map.empty" by (simp add: empty_state_def)
  have split: "sample_bundles = [?a] @ ?b # []" by (simp add: sample_bundles_def)
  from claim[where ws=sample_worlds and apps=sample_bundles and d="?d" and s=empty_state]
  have "\<forall>pre a post. sample_bundles = pre @ a # post \<and>
        mkdir_icon_cache (sample_worlds a) = None \<and> mkdtemp (sample_worlds a) = None \<and>
        open_w (sample_worlds a) (entry_path ?d a) = None \<longrightarrow>
      files (snd (main_loop sample_worlds (pre @ [a]) ?d empty_state)) (entry_path ?d a)
        = Some (entry_text (path_stem (path_name a)) a
                  (icon_or_fallback
                     (fst (extract_and_cache_icons (sample_worlds a) a
                             (logger INFO (''Processing: '' @ path_name a)
                                (snd (main_loop sample_worlds pre ?d empty_state))))))
                  (classify (path_stem (path_name a))))"
    by blast
  note inst = this[rule_format, of "[?a]" ?b "[]"]
  have hyp: "sample_bundles = [?a] @ ?b # [] \<and>
        mkdir_icon_cache (sample_worlds ?b) = None \<and> mkdtemp (sample_worlds ?b) = None \<and>
        open_w (sample_worlds ?b) (entry_path ?d ?b) = None"
    unfolding ws(2) using split sample_world_ok(1,2) sample_world_writable(1) by blast
  have icon: "icon_or_fallback (fst (extract_and_cache_icons sample_world ?b ?sa)) = ''app''"
    unfolding sample_extract[OF fa] by (simp add: icon_or_fallback_def)
  have whole: "[?a] @ [?b] = sample_bundles" by (simp add: sample_bundles_def)
  note entry = inst[OF hyp, unfolded ws(2) icon batch_paths(1,3) classify_B whole]
  have proc2: "(INFO, ''Processing: B.AppImage'')
      \<in> set (logged (snd (main_loop sample_worlds sample_bundles ?d empty_state)))"
    using proc unfolding batch_paths(4) by simp
  from op fail ret err nu bs ws loop proc2 entry show ?thesis
    by (simp del: main_loop.simps)
qed

end
